theory Spec2Isabelle
  imports Main "HOL-Library.Word"
begin

section \<open>Data model of \<^verbatim>\<open>source/Target/Thread.cpp\<close>\<close>

text \<open>
  A \<^verbatim>\<open>ThreadPlan *\<close> is an address; a pointer that may be \<^verbatim>\<open>NULL\<close> is a
  \<open>plan_ptr option\<close>. The three plan stacks of a thread are
  \<^verbatim>\<open>std::vector<ThreadPlanSP>\<close>: lists of addresses, index 0 first and
  \<^verbatim>\<open>back()\<close> last. The objects live in a store \<open>plans\<close> from addresses to
  plan objects, so that two entries holding the same pointer are the same plan.
\<close>

type_synonym plan_ptr = nat
type_synonym tracer_ptr = nat
type_synonym valobj_ptr = nat

text \<open>
  Modelled from the spec: the enumerations \<^verbatim>\<open>StateType\<close>, \<^verbatim>\<open>Vote\<close> and
  \<^verbatim>\<open>StopReason\<close> are declared in a header that is not among the sources; the
  constructors are the enumerators that \<^verbatim>\<open>Thread.cpp\<close> names.
\<close>

datatype StateType =
  eStateInvalid | eStateUnloaded | eStateStopped | eStateRunning | eStateStepping
  | eStateCrashed | eStateSuspended

datatype Vote = eVoteNo | eVoteNoOpinion | eVoteYes

datatype StopReason =
  eStopReasonInvalid | eStopReasonNone | eStopReasonTrace | eStopReasonBreakpoint
  | eStopReasonWatchpoint | eStopReasonSignal | eStopReasonException
  | eStopReasonPlanComplete

text \<open>
  Modelled from the spec: class \<^verbatim>\<open>ThreadPlan\<close> (its header and its subclasses are
  not among the sources). \<^verbatim>\<open>Thread.cpp\<close> only calls its virtual methods; a plan
  object is the record of what each of these methods answers at the current stop. The
  methods that return nothing (\<^verbatim>\<open>WillPop\<close>, \<^verbatim>\<open>WillStop\<close>, \<^verbatim>\<open>DidPush\<close>,
  \<^verbatim>\<open>DoTraceLog\<close>) are recorded as calls in the thread's call log instead.
\<close>

record ThreadPlan =
  IsMasterPlan :: bool
  OkayToDiscard :: bool
  IsBasePlan :: bool
  GetPrivate :: bool
  PlanSucceeded :: bool
  ValidatePlan :: bool
  PlanExplainsStop :: bool
  TracerExplainsStop :: bool
  MischiefManaged :: bool
  ShouldAutoContinue :: bool
  IsPlanStale :: bool
  plan_ShouldStop :: bool
  plan_ShouldReportStop :: Vote
  plan_ShouldReportRun :: Vote
  plan_WillResume :: "StateType \<Rightarrow> bool \<Rightarrow> bool"
  plan_GetReturnValueObject :: "valobj_ptr option"
  GetThreadPlanTracer :: "tracer_ptr option"

text \<open>
  Modelled from the spec: class \<^verbatim>\<open>StopInfo\<close> (\<^verbatim>\<open>StopInfo.cpp\<close> is not among the
  sources): the stop reason kind, the validity flag, the answer of
  \<^verbatim>\<open>ShouldStopSynchronous\<close>, and for a plan-complete stop the plan and the return
  value object it carries.
\<close>

record StopInfo =
  GetStopReason :: StopReason
  IsValid :: bool
  ShouldStopSynchronous :: bool
  m_plan_sp :: "plan_ptr option"
  m_return_valobj_sp :: "valobj_ptr option"

text \<open>
  Modelled from the spec: \<^verbatim>\<open>StopInfo::CreateStopReasonWithPlan\<close>, which synthesizes
  a "plan complete" StopInfo carrying the plan and a return value object.
\<close>

definition CreateStopReasonWithPlan :: "plan_ptr \<Rightarrow> valobj_ptr option \<Rightarrow> StopInfo" where
  "CreateStopReasonWithPlan plan_sp return_valobj_sp =
     \<lparr>GetStopReason = eStopReasonPlanComplete, IsValid = True, ShouldStopSynchronous = True,
      m_plan_sp = Some plan_sp, m_return_valobj_sp = return_valobj_sp\<rparr>"

text \<open>The calls \<^verbatim>\<open>Thread.cpp\<close> makes to hooks that return nothing, in order.\<close>

datatype hook_call =
  Call_WillPop plan_ptr
  | Call_WillStop plan_ptr
  | Call_DidPush plan_ptr
  | Call_DoTraceLog plan_ptr
  | Call_WillResume plan_ptr StateType bool
  | Call_StopInfo_WillResume StateType

text \<open>
  The members of \<^verbatim>\<open>Thread\<close> the plan logic reads and writes. \<open>m_process_wp\<close> is
  what \<^verbatim>\<open>GetProcess()\<close> returns: \<open>None\<close> once the process is gone, else the
  process's current stop id. \<open>GetPrivateStopReason\<close> is the answer of the pure virtual
  method of that name.
\<close>

record Thread =
  m_plan_stack :: "plan_ptr list"
  m_completed_plan_stack :: "plan_ptr list"
  m_discarded_plan_stack :: "plan_ptr list"
  m_resume_state :: StateType
  m_temporary_resume_state :: StateType
  m_actual_stop_info_sp :: "StopInfo option"
  m_thread_stop_reason_stop_id :: "32 word"
  m_process_wp :: "32 word option"
  GetPrivateStopReason :: "StopInfo option"
  plans :: "plan_ptr \<Rightarrow> ThreadPlan"
  calls :: "hook_call list"

section \<open>Plan stack operations\<close>

definition log_call :: "hook_call \<Rightarrow> Thread \<Rightarrow> Thread" where
  "log_call c s = s\<lparr>calls := calls s @ [c]\<rparr>"

text \<open>\<^verbatim>\<open>Thread::PopPlan\<close>: nothing when the stack has at most one plan.\<close>

definition PopPlan :: "Thread \<Rightarrow> Thread" where
  "PopPlan s =
     (if length (m_plan_stack s) \<le> 1 then s
      else let plan = last (m_plan_stack s) in
        s\<lparr>m_completed_plan_stack := m_completed_plan_stack s @ [plan],
          calls := calls s @ [Call_WillPop plan],
          m_plan_stack := butlast (m_plan_stack s)\<rparr>)"

text \<open>\<^verbatim>\<open>Thread::DiscardPlan\<close>\<close>

definition DiscardPlan :: "Thread \<Rightarrow> Thread" where
  "DiscardPlan s =
     (if length (m_plan_stack s) > 1 then
        let plan = last (m_plan_stack s) in
        s\<lparr>m_discarded_plan_stack := m_discarded_plan_stack s @ [plan],
          calls := calls s @ [Call_WillPop plan],
          m_plan_stack := butlast (m_plan_stack s)\<rparr>
      else s)"

text \<open>
  \<^verbatim>\<open>Thread::GetCurrentPlan\<close>: the assertion that the stack is not empty fails on an
  empty stack, and the call does not return a plan: \<open>None\<close>.
\<close>

definition GetCurrentPlan :: "Thread \<Rightarrow> plan_ptr option" where
  "GetCurrentPlan s = (if m_plan_stack s = [] then None else Some (last (m_plan_stack s)))"

text \<open>
  The search loops of \<^verbatim>\<open>DiscardThreadPlansUpToPlan\<close>:
  \<^verbatim>\<open>for (int i = stack_size - 1; i > 0; i--) if (m_plan_stack[i].get() == up_to_plan_ptr) found_it = true;\<close>
  The first argument is the current index \<open>i\<close>.
\<close>

fun found_it_loop :: "nat \<Rightarrow> plan_ptr list \<Rightarrow> plan_ptr \<Rightarrow> bool \<Rightarrow> bool" where
  "found_it_loop 0 stk up_to_plan_ptr found_it = found_it"
| "found_it_loop (Suc i) stk up_to_plan_ptr found_it =
     found_it_loop i stk up_to_plan_ptr (if stk ! Suc i = up_to_plan_ptr then True else found_it)"

text \<open>
  \<^verbatim>\<open>for (int i = stack_size - 1; i > 0 && !last_one; i--)
  { if (GetCurrentPlan() == up_to_plan_ptr) last_one = true; DiscardPlan(); }\<close>
\<close>

fun discard_up_to_loop :: "nat \<Rightarrow> bool \<Rightarrow> plan_ptr \<Rightarrow> Thread \<Rightarrow> Thread" where
  "discard_up_to_loop 0 last_one up_to_plan_ptr s = s"
| "discard_up_to_loop (Suc i) last_one up_to_plan_ptr s =
     (if last_one then s
      else discard_up_to_loop i (GetCurrentPlan s = Some up_to_plan_ptr) up_to_plan_ptr
             (DiscardPlan s))"

text \<open>\<^verbatim>\<open>Thread::DiscardThreadPlansUpToPlan (ThreadPlan *up_to_plan_ptr)\<close>\<close>

definition DiscardThreadPlansUpToPlan :: "plan_ptr option \<Rightarrow> Thread \<Rightarrow> Thread" where
  "DiscardThreadPlansUpToPlan up_to_plan_ptr s =
     (let stack_size = length (m_plan_stack s) in
      case up_to_plan_ptr of
        None \<Rightarrow> (DiscardPlan ^^ (stack_size - 1)) s
      | Some p \<Rightarrow>
          if found_it_loop (stack_size - 1) (m_plan_stack s) p False
          then discard_up_to_loop (stack_size - 1) False p s
          else s)"

text \<open>
  The scan of \<^verbatim>\<open>DiscardThreadPlans\<close> for the first master plan from the top:
  \<^verbatim>\<open>for (master_plan_idx = m_plan_stack.size() - 1; master_plan_idx >= 0; master_plan_idx--)\<close>.
  The first argument is \<open>master_plan_idx + 1\<close>; the result is the index at the
  \<^verbatim>\<open>break\<close>, or \<open>-1\<close> when the loop runs out.
\<close>

fun find_master_plan :: "nat \<Rightarrow> (plan_ptr \<Rightarrow> ThreadPlan) \<Rightarrow> plan_ptr list \<Rightarrow> int" where
  "find_master_plan 0 ps stk = - 1"
| "find_master_plan (Suc i) ps stk =
     (if IsMasterPlan (ps (stk ! i)) then int i else find_master_plan i ps stk)"

text \<open>
  The \<^verbatim>\<open>while (1)\<close> loop of \<^verbatim>\<open>DiscardThreadPlans\<close>, which may run forever:
  the result \<open>None\<close> is that the loop does not return. The local \<^verbatim>\<open>discard\<close> is
  declared without an initial value and is only assigned when a master plan is found;
  the argument \<open>discard\<close> is what its storage holds when the iteration starts.
\<close>

partial_function (option) DiscardThreadPlans_loop :: "bool \<Rightarrow> Thread \<Rightarrow> Thread option" where
  "DiscardThreadPlans_loop discard s =
     (let master_plan_idx = find_master_plan (length (m_plan_stack s)) (plans s) (m_plan_stack s);
          discard' = (if master_plan_idx \<ge> 0
                      then OkayToDiscard (plans s (m_plan_stack s ! nat master_plan_idx))
                      else discard)
      in if discard' then
           let s1 = (DiscardPlan ^^ nat (int (length (m_plan_stack s)) - 1 - master_plan_idx)) s;
               s2 = (if master_plan_idx > 0 then DiscardPlan s1 else s1)
           in DiscardThreadPlans_loop discard' s2
         else Some s)"

text \<open>
  \<^verbatim>\<open>Thread::DiscardThreadPlans (bool force)\<close>; \<open>uninit\<close> is the content of the
  uninitialised local \<^verbatim>\<open>discard\<close> on entry to the loop.
\<close>

definition DiscardThreadPlans :: "bool \<Rightarrow> bool \<Rightarrow> Thread \<Rightarrow> Thread option" where
  "DiscardThreadPlans uninit force s =
     (if force then Some ((DiscardPlan ^^ (length (m_plan_stack s) - 1)) s)
      else DiscardThreadPlans_loop uninit s)"

text \<open>
  \<^verbatim>\<open>Thread::PlanIsBasePlan\<close>
\<close>

definition PlanIsBasePlan :: "Thread \<Rightarrow> plan_ptr \<Rightarrow> bool" where
  "PlanIsBasePlan s plan_ptr =
     (if IsBasePlan (plans s plan_ptr) then True
      else if length (m_plan_stack s) = 0 then False
      else m_plan_stack s ! 0 = plan_ptr)"

text \<open>
  The two search loops of \<^verbatim>\<open>Thread::GetPreviousPlan\<close>:
  \<^verbatim>\<open>for (int i = stack_size - 1; i > 0; i--) if (current_plan == stack[i].get()) return stack[i-1].get();\<close>
  The first argument is the current index \<open>i\<close>; \<open>None\<close> is that the loop ran out.
\<close>

fun previous_in_stack :: "nat \<Rightarrow> plan_ptr list \<Rightarrow> plan_ptr \<Rightarrow> plan_ptr option" where
  "previous_in_stack 0 stk current_plan = None"
| "previous_in_stack (Suc i) stk current_plan =
     (if current_plan = stk ! Suc i then Some (stk ! i)
      else previous_in_stack i stk current_plan)"

text \<open>\<^verbatim>\<open>Thread::GetPreviousPlan\<close>: the completed plans are searched first.\<close>

definition GetPreviousPlan :: "Thread \<Rightarrow> plan_ptr option \<Rightarrow> plan_ptr option" where
  "GetPreviousPlan s current_plan =
     (case current_plan of
        None \<Rightarrow> None
      | Some p \<Rightarrow>
          (case previous_in_stack (length (m_completed_plan_stack s) - 1)
                  (m_completed_plan_stack s) p of
             Some q \<Rightarrow> Some q
           | None \<Rightarrow>
               if length (m_completed_plan_stack s) > 0 \<and> m_completed_plan_stack s ! 0 = p
               then (if length (m_plan_stack s) > 0 then Some (last (m_plan_stack s)) else None)
               else previous_in_stack (length (m_plan_stack s) - 1) (m_plan_stack s) p))"

text \<open>
  \<^verbatim>\<open>Thread::PushPlan\<close>. A plan without a tracer takes the tracer of
  \<^verbatim>\<open>m_plan_stack.back()\<close>, which an empty stack does not have: \<open>None\<close>.
\<close>

definition PushPlan :: "plan_ptr option \<Rightarrow> Thread \<Rightarrow> Thread option" where
  "PushPlan thread_plan_sp s =
     (case thread_plan_sp of
        None \<Rightarrow> Some s
      | Some p \<Rightarrow>
          if GetThreadPlanTracer (plans s p) = None \<and> m_plan_stack s = [] then None
          else
            let s1 = (if GetThreadPlanTracer (plans s p) = None
                      then s\<lparr>plans := (plans s)
                             (p := (plans s p)\<lparr>GetThreadPlanTracer :=
                                    GetThreadPlanTracer (plans s (last (m_plan_stack s)))\<rparr>)\<rparr>
                      else s)
            in Some (log_call (Call_DidPush p) (s1\<lparr>m_plan_stack := m_plan_stack s1 @ [p]\<rparr>)))"

text \<open>
  \<^verbatim>\<open>Thread::QueueThreadPlan\<close>. \<^verbatim>\<open>DiscardThreadPlans(true)\<close> returns before
  its local \<^verbatim>\<open>discard\<close> exists, so the value passed for it is never read.
\<close>

definition QueueThreadPlan :: "plan_ptr option \<Rightarrow> bool \<Rightarrow> Thread \<Rightarrow> Thread option" where
  "QueueThreadPlan thread_plan_sp abort_other_plans s =
     (case (if abort_other_plans then DiscardThreadPlans False True s else Some s) of
        None \<Rightarrow> None
      | Some s1 \<Rightarrow> PushPlan thread_plan_sp s1)"

text \<open>
  \<^verbatim>\<open>Thread::QueueThreadPlanForStepOut\<close> and
  \<^verbatim>\<open>Thread::QueueThreadPlanForStepThrough\<close>. \<^verbatim>\<open>new ThreadPlanStepOut (...)\<close>
  is a plan object \<open>new_plan\<close> at a new address \<open>p\<close>. The result is the returned
  pointer and the thread. When validation fails the shared pointer goes out of scope,
  the object is deleted and the store is as before.
\<close>

definition QueueThreadPlanForStepOut ::
  "bool \<Rightarrow> plan_ptr \<Rightarrow> ThreadPlan \<Rightarrow> Thread \<Rightarrow> (plan_ptr option \<times> Thread) option" where
  "QueueThreadPlanForStepOut abort_other_plans p new_plan s =
     (if ValidatePlan new_plan then
        (case QueueThreadPlan (Some p) abort_other_plans (s\<lparr>plans := (plans s)(p := new_plan)\<rparr>) of
           None \<Rightarrow> None
         | Some s' \<Rightarrow> Some (Some p, s'))
      else Some (None, s))"

definition QueueThreadPlanForStepThrough ::
  "bool \<Rightarrow> plan_ptr \<Rightarrow> ThreadPlan \<Rightarrow> Thread \<Rightarrow> (plan_ptr option \<times> Thread) option" where
  "QueueThreadPlanForStepThrough abort_other_plans p new_plan s =
     (if \<not> ValidatePlan new_plan then Some (None, s)
      else
        (case QueueThreadPlan (Some p) abort_other_plans (s\<lparr>plans := (plans s)(p := new_plan)\<rparr>) of
           None \<Rightarrow> None
         | Some s' \<Rightarrow> Some (Some p, s')))"

section \<open>Stop information and votes\<close>

text \<open>
  \<^verbatim>\<open>Thread::GetCompletedPlan\<close>:
  \<^verbatim>\<open>for (int i = m_completed_plan_stack.size() - 1; i >= 0; i--)\<close>; the first
  argument is \<open>i + 1\<close>.
\<close>

fun GetCompletedPlan_loop ::
  "nat \<Rightarrow> (plan_ptr \<Rightarrow> ThreadPlan) \<Rightarrow> plan_ptr list \<Rightarrow> plan_ptr option" where
  "GetCompletedPlan_loop 0 ps completed = None"
| "GetCompletedPlan_loop (Suc i) ps completed =
     (if \<not> GetPrivate (ps (completed ! i)) then Some (completed ! i)
      else GetCompletedPlan_loop i ps completed)"

definition GetCompletedPlan :: "Thread \<Rightarrow> plan_ptr option" where
  "GetCompletedPlan s =
     GetCompletedPlan_loop (length (m_completed_plan_stack s)) (plans s) (m_completed_plan_stack s)"

text \<open>\<^verbatim>\<open>Thread::GetReturnValueObject\<close>, the same loop over the completed plans.\<close>

fun GetReturnValueObject_loop ::
  "nat \<Rightarrow> (plan_ptr \<Rightarrow> ThreadPlan) \<Rightarrow> plan_ptr list \<Rightarrow> valobj_ptr option" where
  "GetReturnValueObject_loop 0 ps completed = None"
| "GetReturnValueObject_loop (Suc i) ps completed =
     (case plan_GetReturnValueObject (ps (completed ! i)) of
        Some v \<Rightarrow> Some v
      | None \<Rightarrow> GetReturnValueObject_loop i ps completed)"

definition GetReturnValueObject :: "Thread \<Rightarrow> valobj_ptr option" where
  "GetReturnValueObject s =
     GetReturnValueObject_loop (length (m_completed_plan_stack s)) (plans s)
       (m_completed_plan_stack s)"

text \<open>\<^verbatim>\<open>Thread::GetStopInfo\<close>; a null \<^verbatim>\<open>StopInfoSP\<close> is \<open>None\<close>.\<close>

definition cached_stop_info_current :: "Thread \<Rightarrow> bool" where
  "cached_stop_info_current s =
     (case m_process_wp s of
        None \<Rightarrow> False
      | Some stop_id \<Rightarrow>
          (case m_actual_stop_info_sp s of
             None \<Rightarrow> False
           | Some info \<Rightarrow> IsValid info \<and> m_thread_stop_reason_stop_id s = stop_id))"

definition GetStopInfo :: "Thread \<Rightarrow> StopInfo option" where
  "GetStopInfo s =
     (case GetCompletedPlan s of
        Some plan_sp \<Rightarrow>
          if PlanSucceeded (plans s plan_sp)
          then Some (CreateStopReasonWithPlan plan_sp (GetReturnValueObject s))
          else if cached_stop_info_current s then m_actual_stop_info_sp s
          else GetPrivateStopReason s
      | None \<Rightarrow>
          if cached_stop_info_current s then m_actual_stop_info_sp s
          else GetPrivateStopReason s)"

text \<open>\<^verbatim>\<open>Thread::ThreadStoppedForAReason\<close>\<close>

definition ThreadStoppedForAReason :: "Thread \<Rightarrow> bool" where
  "ThreadStoppedForAReason s = (GetPrivateStopReason s \<noteq> None)"

text \<open>
  \<^verbatim>\<open>Thread::ShouldReportStop\<close> and \<^verbatim>\<open>Thread::ShouldReportRun\<close>; \<open>None\<close> is the
  failed assertion of \<^verbatim>\<open>GetCurrentPlan\<close>.
\<close>

definition ShouldReportStop :: "Thread \<Rightarrow> Vote option" where
  "ShouldReportStop s =
     (let thread_state = m_resume_state s; temp_thread_state = m_temporary_resume_state s in
      if thread_state = eStateSuspended \<or> thread_state = eStateInvalid then Some eVoteNoOpinion
      else if temp_thread_state = eStateSuspended \<or> temp_thread_state = eStateInvalid
      then Some eVoteNoOpinion
      else if \<not> ThreadStoppedForAReason s then Some eVoteNoOpinion
      else if length (m_completed_plan_stack s) > 0
      then Some (plan_ShouldReportStop (plans s (last (m_completed_plan_stack s))))
      else (case GetCurrentPlan s of
              None \<Rightarrow> None
            | Some p \<Rightarrow> Some (plan_ShouldReportStop (plans s p))))"

definition ShouldReportRun :: "Thread \<Rightarrow> Vote option" where
  "ShouldReportRun s =
     (let thread_state = m_resume_state s in
      if thread_state = eStateSuspended \<or> thread_state = eStateInvalid then Some eVoteNoOpinion
      else if length (m_completed_plan_stack s) > 0
      then Some (plan_ShouldReportRun (plans s (last (m_completed_plan_stack s))))
      else (case GetCurrentPlan s of
              None \<Rightarrow> None
            | Some p \<Rightarrow> Some (plan_ShouldReportRun (plans s p))))"

section \<open>\<^verbatim>\<open>Thread::WillResume\<close>\<close>

text \<open>
  \<^verbatim>\<open>while ((plan_ptr = GetPreviousPlan(plan_ptr)) != NULL) plan_ptr->WillResume (resume_state, false);\<close>
  The walk follows \<^verbatim>\<open>GetPreviousPlan\<close> and need not end when a pointer occurs twice
  in the stack: \<open>None\<close> is that it does not return.
\<close>

partial_function (option) WillResume_lower_plans ::
  "StateType \<Rightarrow> plan_ptr \<Rightarrow> Thread \<Rightarrow> Thread option" where
  "WillResume_lower_plans resume_state plan_ptr s =
     (case GetPreviousPlan s (Some plan_ptr) of
        None \<Rightarrow> Some s
      | Some q \<Rightarrow>
          WillResume_lower_plans resume_state q (log_call (Call_WillResume q resume_state False) s))"

text \<open>
  \<^verbatim>\<open>Thread::WillResume\<close>: the result is \<^verbatim>\<open>need_to_resume\<close> and the thread.
  \<^verbatim>\<open>GetProcess()->GetStopID()\<close> dereferences the process, and
  \<^verbatim>\<open>GetCurrentPlan\<close> asserts a plan: \<open>None\<close> when either is missing.
\<close>

definition WillResume :: "StateType \<Rightarrow> Thread \<Rightarrow> (bool \<times> Thread) option" where
  "WillResume resume_state s =
     (let s1 = s\<lparr>m_completed_plan_stack := [], m_discarded_plan_stack := []\<rparr>;
          s2 = s1\<lparr>m_temporary_resume_state := resume_state\<rparr>
      in case m_process_wp s2 of
           None \<Rightarrow> None
         | Some process_stop_id \<Rightarrow>
             let s3 = (if m_thread_stop_reason_stop_id s2 = process_stop_id \<and>
                          (case m_actual_stop_info_sp s2 of None \<Rightarrow> False | Some i \<Rightarrow> IsValid i)
                       then (case GetPrivateStopReason s2 of
                               None \<Rightarrow> s2
                             | Some stop_info \<Rightarrow> log_call (Call_StopInfo_WillResume resume_state) s2)
                       else s2)
             in case GetCurrentPlan s3 of
                  None \<Rightarrow> None
                | Some plan_ptr \<Rightarrow>
                    let need_to_resume = plan_WillResume (plans s3 plan_ptr) resume_state True;
                        s4 = log_call (Call_WillResume plan_ptr resume_state True) s3
                    in case WillResume_lower_plans resume_state plan_ptr s4 of
                         None \<Rightarrow> None
                       | Some s5 \<Rightarrow>
                           Some (need_to_resume,
                                 if need_to_resume then s5\<lparr>m_actual_stop_info_sp := None\<rparr>
                                 else s5))"

section \<open>\<^verbatim>\<open>Thread::ShouldStop\<close>: the plan that explains the stop, and the plan loop\<close>

text \<open>\<^verbatim>\<open>if (should_stop) current_plan->WillStop();\<close>\<close>

definition WillStop_if :: "bool \<Rightarrow> plan_ptr \<Rightarrow> Thread \<Rightarrow> Thread" where
  "WillStop_if should_stop current_plan s =
     (if should_stop then log_call (Call_WillStop current_plan) s else s)"

text \<open>
  \<^verbatim>\<open>do { if (should_stop) current_plan->WillStop(); PopPlan(); }
  while ((current_plan = GetCurrentPlan()) != prev_plan_ptr);\<close>
  The result is the final \<^verbatim>\<open>current_plan\<close> and the thread; the loop runs forever
  when \<^verbatim>\<open>prev_plan_ptr\<close> never comes to the top.
\<close>

partial_function (option) ShouldStop_pop_loop ::
  "bool \<Rightarrow> plan_ptr option \<Rightarrow> plan_ptr \<Rightarrow> Thread \<Rightarrow> (plan_ptr \<times> Thread) option" where
  "ShouldStop_pop_loop should_stop prev_plan_ptr current_plan s =
     (case GetCurrentPlan (PopPlan (WillStop_if should_stop current_plan s)) of
        None \<Rightarrow> None
      | Some c \<Rightarrow>
          if Some c \<noteq> prev_plan_ptr
          then ShouldStop_pop_loop should_stop prev_plan_ptr c
                 (PopPlan (WillStop_if should_stop current_plan s))
          else Some (c, PopPlan (WillStop_if should_stop current_plan s)))"

text \<open>
  The downward scan \<^verbatim>\<open>while ((plan_ptr = GetPreviousPlan(plan_ptr)) != NULL)\<close> of
  \<^verbatim>\<open>ShouldStop\<close> with its body. The result is the thread with the locals
  \<^verbatim>\<open>current_plan\<close>, \<^verbatim>\<open>should_stop\<close> and \<^verbatim>\<open>done_processing_current_plan\<close>.
\<close>

partial_function (option) ShouldStop_scan ::
  "plan_ptr \<Rightarrow> bool \<Rightarrow> plan_ptr \<Rightarrow> Thread \<Rightarrow> (Thread \<times> plan_ptr \<times> bool \<times> bool) option" where
  "ShouldStop_scan plan_ptr should_stop current_plan s =
     (case GetPreviousPlan s (Some plan_ptr) of
        None \<Rightarrow> Some (s, current_plan, should_stop, False)
      | Some q \<Rightarrow>
          if PlanExplainsStop (plans s q) then
            (if MischiefManaged (plans s q) then
               (case ShouldStop_pop_loop (plan_ShouldStop (plans s q))
                       (GetPreviousPlan s (Some q)) current_plan s of
                  None \<Rightarrow> None
                | Some (c, s') \<Rightarrow>
                    Some (s', c, plan_ShouldStop (plans s q),
                          IsMasterPlan (plans s' q) \<and> \<not> OkayToDiscard (plans s' q)))
             else Some (s, current_plan, plan_ShouldStop (plans s q), True))
          else ShouldStop_scan q should_stop current_plan s)"

text \<open>
  Lines 455 to 505 of \<^verbatim>\<open>Thread::ShouldStop\<close>, entered with
  \<^verbatim>\<open>should_stop = true\<close> and \<^verbatim>\<open>done_processing_current_plan = false\<close>.
\<close>

definition ShouldStop_explain ::
  "plan_ptr \<Rightarrow> Thread \<Rightarrow> (Thread \<times> plan_ptr \<times> bool \<times> bool) option" where
  "ShouldStop_explain current_plan s =
     (if \<not> PlanExplainsStop (plans s current_plan) then
        (if TracerExplainsStop (plans s current_plan) then Some (s, current_plan, False, True)
         else ShouldStop_scan current_plan True current_plan s)
      else Some (s, current_plan, True, False))"

text \<open>
  The \<^verbatim>\<open>while (1)\<close> loop over the top plan (lines 525 to 562). The result is the
  thread with the locals \<^verbatim>\<open>current_plan\<close> and \<^verbatim>\<open>should_stop\<close>.
\<close>

function ShouldStop_plan_loop ::
  "plan_ptr \<Rightarrow> bool \<Rightarrow> Thread \<Rightarrow> (Thread \<times> plan_ptr \<times> bool) option" where
  "ShouldStop_plan_loop current_plan should_stop s =
     (if PlanIsBasePlan s current_plan then Some (s, current_plan, should_stop)
      else if MischiefManaged (plans s current_plan) then
        (if plan_ShouldStop (plans s current_plan) \<and> IsMasterPlan (plans s current_plan) \<and>
            \<not> OkayToDiscard (plans s current_plan)
         then Some (PopPlan (WillStop_if (plan_ShouldStop (plans s current_plan)) current_plan s),
                    current_plan, plan_ShouldStop (plans s current_plan))
         else
           (case GetCurrentPlan
                   (PopPlan (WillStop_if (plan_ShouldStop (plans s current_plan)) current_plan s)) of
              None \<Rightarrow> None
            | Some c \<Rightarrow>
                ShouldStop_plan_loop c (plan_ShouldStop (plans s current_plan))
                  (PopPlan (WillStop_if (plan_ShouldStop (plans s current_plan)) current_plan s))))
      else Some (s, current_plan, plan_ShouldStop (plans s current_plan)))"
  by pat_completeness auto

termination ShouldStop_plan_loop
proof (relation "measures [\<lambda>(c, sh, s). length (m_plan_stack s),
                          \<lambda>(c, sh, s). if PlanIsBasePlan s c then 0 else 1]", goal_cases)
  case 1
  then show ?case by simp
next
  case (2 current_plan should_stop s c)
  let ?s' = "PopPlan (WillStop_if (plan_ShouldStop (plans s current_plan)) current_plan s)"
  show ?case
  proof (cases "length (m_plan_stack s) > 1")
    case True
    then have "length (m_plan_stack ?s') < length (m_plan_stack s)"
      by (simp add: PopPlan_def Let_def WillStop_if_def log_call_def)
    then show ?thesis by simp
  next
    case False
    then have stk: "m_plan_stack ?s' = m_plan_stack s"
      by (simp add: PopPlan_def Let_def WillStop_if_def log_call_def)
    have pl: "plans ?s' = plans s"
      by (simp add: PopPlan_def Let_def WillStop_if_def log_call_def)
    from 2(4) stk have ne: "m_plan_stack s \<noteq> []" and c: "c = last (m_plan_stack s)"
      by (auto simp: GetCurrentPlan_def split: if_splits)
    from ne False have "length (m_plan_stack s) = 1" by (cases "m_plan_stack s") auto
    then have "last (m_plan_stack s) = m_plan_stack s ! 0"
      by (cases "m_plan_stack s") auto
    with c ne stk have "PlanIsBasePlan ?s' c" by (simp add: PlanIsBasePlan_def)
    with 2(1) stk show ?thesis by simp
  qed
qed

text \<open>
  The part of \<^verbatim>\<open>ShouldStop\<close> entered when
  \<^verbatim>\<open>done_processing_current_plan\<close> is false, up to the end of the loop: the base
  plan decides alone, any other top plan enters the loop.
\<close>

definition ShouldStop_decide ::
  "plan_ptr \<Rightarrow> bool \<Rightarrow> Thread \<Rightarrow> (Thread \<times> plan_ptr \<times> bool) option" where
  "ShouldStop_decide current_plan should_stop s =
     (if PlanIsBasePlan s current_plan
      then Some (s, current_plan, plan_ShouldStop (plans s current_plan))
      else ShouldStop_plan_loop current_plan should_stop s)"

text \<open>
  The sweep for stale plans at the end of \<^verbatim>\<open>ShouldStop\<close>:
  \<^verbatim>\<open>while (!PlanIsBasePlan(plan_ptr))\<close>, which dereferences \<^verbatim>\<open>plan_ptr\<close>: a null
  pointer there, or a walk that never reaches a base plan, is \<open>None\<close>.
\<close>

partial_function (option) ShouldStop_stale_sweep ::
  "plan_ptr option \<Rightarrow> Thread \<Rightarrow> Thread option" where
  "ShouldStop_stale_sweep plan_ptr s =
     (case plan_ptr of
        None \<Rightarrow> None
      | Some examined_plan \<Rightarrow>
          if PlanIsBasePlan s examined_plan then Some s
          else ShouldStop_stale_sweep (GetPreviousPlan s (Some examined_plan))
                 (if IsPlanStale (plans s examined_plan)
                  then DiscardThreadPlansUpToPlan (Some examined_plan) s else s))"

text \<open>
  \<^verbatim>\<open>Thread::ShouldStop\<close>, from the parts above: the result is \<^verbatim>\<open>should_stop\<close>
  and the thread. The recomputation of the inlined depth and the log output are outside
  the model.
\<close>

definition ShouldStop :: "Thread \<Rightarrow> (bool \<times> Thread) option" where
  "ShouldStop s =
     (case GetCurrentPlan s of
        None \<Rightarrow> None
      | Some current_plan \<Rightarrow>
          if m_resume_state s = eStateSuspended then Some (False, s)
          else if m_temporary_resume_state s = eStateSuspended then Some (False, s)
          else if \<not> ThreadStoppedForAReason s then Some (False, s)
          else
            let s0 = log_call (Call_DoTraceLog current_plan) s in
            if (case GetPrivateStopReason s0 of
                  None \<Rightarrow> False
                | Some private_stop_info \<Rightarrow> \<not> ShouldStopSynchronous private_stop_info)
            then Some (False, s0)
            else
              (case ShouldStop_explain current_plan s0 of
                 None \<Rightarrow> None
               | Some (s1, current_plan1, should_stop1, done_processing_current_plan) \<Rightarrow>
                   if done_processing_current_plan then Some (should_stop1, s1)
                   else
                     (case ShouldStop_decide current_plan1 should_stop1 s1 of
                        None \<Rightarrow> None
                      | Some (s2, current_plan2, should_stop2) \<Rightarrow>
                          if ShouldAutoContinue (plans s1 current_plan1) then Some (False, s2)
                          else if should_stop2
                          then (case ShouldStop_stale_sweep (GetCurrentPlan s2) s2 of
                                  None \<Rightarrow> None
                                | Some s3 \<Rightarrow> Some (True, s3))
                          else Some (False, s2))))"

section \<open>Auxiliary definitions for the proofs\<close>

text \<open>The three values one pass of the loop of \<^verbatim>\<open>DiscardThreadPlans\<close> computes.\<close>

definition loop_idx :: "Thread \<Rightarrow> int" where
  "loop_idx s = find_master_plan (length (m_plan_stack s)) (plans s) (m_plan_stack s)"

definition loop_discard :: "bool \<Rightarrow> Thread \<Rightarrow> bool" where
  "loop_discard discard s =
     (if 0 \<le> loop_idx s then OkayToDiscard (plans s (m_plan_stack s ! nat (loop_idx s)))
      else discard)"

definition loop_next :: "Thread \<Rightarrow> Thread" where
  "loop_next s =
     (if 0 < loop_idx s
      then DiscardPlan ((DiscardPlan ^^ nat (int (length (m_plan_stack s)) - 1 - loop_idx s)) s)
      else (DiscardPlan ^^ nat (int (length (m_plan_stack s)) - 1 - loop_idx s)) s)"

text \<open>The base plan stays: the stack is not empty and its entry 0 is the one of before.\<close>

definition base_plan_kept :: "Thread \<Rightarrow> Thread \<Rightarrow> bool" where
  "base_plan_kept s s' \<longleftrightarrow> m_plan_stack s' \<noteq> [] \<and> m_plan_stack s' ! 0 = m_plan_stack s ! 0"

section \<open>Example plans and threads\<close>

text \<open>
  A plan that answers no to everything, and a base plan as \<^verbatim>\<open>ThreadPlanBase\<close> is
  described: a master plan that is not okay to discard and is never done.
\<close>

definition plain_plan :: ThreadPlan where
  "plain_plan =
     \<lparr>IsMasterPlan = False, OkayToDiscard = True, IsBasePlan = False, GetPrivate = False,
      PlanSucceeded = False, ValidatePlan = True, PlanExplainsStop = False,
      TracerExplainsStop = False, MischiefManaged = False, ShouldAutoContinue = False,
      IsPlanStale = False, plan_ShouldStop = False, plan_ShouldReportStop = eVoteNoOpinion,
      plan_ShouldReportRun = eVoteNoOpinion, plan_WillResume = (\<lambda>resume_state current. True),
      plan_GetReturnValueObject = None, GetThreadPlanTracer = None\<rparr>"

definition base_plan :: ThreadPlan where
  "base_plan = plain_plan\<lparr>IsMasterPlan := True, OkayToDiscard := False, IsBasePlan := True\<rparr>"

text \<open>A running thread with the plans at the given addresses and empty histories.\<close>

definition thread_of :: "plan_ptr list \<Rightarrow> (plan_ptr \<Rightarrow> ThreadPlan) \<Rightarrow> Thread" where
  "thread_of stk ps =
     \<lparr>m_plan_stack = stk, m_completed_plan_stack = [], m_discarded_plan_stack = [],
      m_resume_state = eStateRunning, m_temporary_resume_state = eStateRunning,
      m_actual_stop_info_sp = None, m_thread_stop_reason_stop_id = 0, m_process_wp = Some 0,
      GetPrivateStopReason = None, plans = ps, calls = []\<rparr>"

text \<open>The base plan at address 0 below two plain plans at 1 and 2.\<close>

definition three_plans :: Thread where
  "three_plans = thread_of [0, 1, 2] ((\<lambda>p. plain_plan)(0 := base_plan))"


text \<open>
  A thread whose resume state is running and whose temporary resume state is suspended;
  its only plan votes yes on reporting a run.
\<close>

definition held_back :: Thread where
  "held_back =
     (thread_of [0] (\<lambda>p. base_plan\<lparr>plan_ShouldReportRun := eVoteYes\<rparr>))
       \<lparr>m_temporary_resume_state := eStateSuspended\<rparr>"

text \<open>
  A thread that stopped with two completed plans: plan 1, public and successful, has no
  return value object; plan 2, completed after it, is private and has the return value
  object 7.
\<close>

definition returned_from_private :: Thread where
  "returned_from_private =
     (thread_of [0]
        ((\<lambda>p. plain_plan)
           (0 := base_plan,
            1 := plain_plan\<lparr>PlanSucceeded := True\<rparr>,
            2 := plain_plan\<lparr>GetPrivate := True, plan_GetReturnValueObject := Some 7\<rparr>)))
       \<lparr>m_completed_plan_stack := [1, 2]\<rparr>"

text \<open>The first return value object from the top of the completed history.\<close>

definition first_return_value :: "Thread \<Rightarrow> valobj_ptr option" where
  "first_return_value s =
     (case find (\<lambda>p. plan_GetReturnValueObject (plans s p) \<noteq> None)
             (rev (m_completed_plan_stack s)) of
        None \<Rightarrow> None
      | Some p \<Rightarrow> plan_GetReturnValueObject (plans s p))"

text \<open>The most recent completed plan that is not private.\<close>

definition last_public_completed :: "Thread \<Rightarrow> plan_ptr option" where
  "last_public_completed s =
     find (\<lambda>p. \<not> GetPrivate (plans s p)) (rev (m_completed_plan_stack s))"

text \<open>
  A thread stopped by a signal, with that stop cached for the current stop id; its only
  plan answers \<^verbatim>\<open>WillResume\<close> with false: it fakes the resume.
\<close>

definition signal_stop :: StopInfo where
  "signal_stop =
     \<lparr>GetStopReason = eStopReasonSignal, IsValid = True, ShouldStopSynchronous = True,
      m_plan_sp = None, m_return_valobj_sp = None\<rparr>"

definition faking_resume :: Thread where
  "faking_resume =
     (thread_of [0] (\<lambda>p. base_plan\<lparr>plan_WillResume := (\<lambda>resume_state current. False)\<rparr>))
       \<lparr>m_actual_stop_info_sp := Some signal_stop, GetPrivateStopReason := Some signal_stop\<rparr>"

text \<open>
  Whether \<^verbatim>\<open>WillResume\<close> tells the stop info that the thread resumes: the cached
  stop info is valid for the process's stop id and the private stop reason is not null.
\<close>

definition notifies_stop_info :: "Thread \<Rightarrow> bool" where
  "notifies_stop_info s \<longleftrightarrow>
     m_process_wp s = Some (m_thread_stop_reason_stop_id s) \<and>
     (case m_actual_stop_info_sp s of None \<Rightarrow> False | Some i \<Rightarrow> IsValid i) \<and>
     GetPrivateStopReason s \<noteq> None"

text \<open>
  The base plan below a master plan at address 1 that is not okay to discard, wants to
  stop and is done.
\<close>

definition done_master :: ThreadPlan where
  "done_master =
     plain_plan\<lparr>IsMasterPlan := True, OkayToDiscard := False, MischiefManaged := True,
                plan_ShouldStop := True\<rparr>"

definition master_on_top :: Thread where
  "master_on_top = thread_of [0, 1] ((\<lambda>p. plain_plan)(0 := base_plan, 1 := done_master))"

text \<open>
  The same master plan, which also explains the stop, below a plain plan at address 2
  that does not explain it.
\<close>

definition master_interrupted :: Thread where
  "master_interrupted =
     thread_of [0, 1, 2]
       ((\<lambda>p. plain_plan)(0 := base_plan, 1 := done_master\<lparr>PlanExplainsStop := True\<rparr>))"

text \<open>
  The calls \<^verbatim>\<open>ShouldStop\<close> makes while it pops the plans \<open>ps\<close>, first to last:
  \<^verbatim>\<open>WillStop\<close> when the verdict is to stop, then \<^verbatim>\<open>WillPop\<close> from
  \<^verbatim>\<open>PopPlan\<close>.
\<close>

definition pop_calls :: "bool \<Rightarrow> plan_ptr list \<Rightarrow> hook_call list" where
  "pop_calls should_stop ps =
     concat (map (\<lambda>p. (if should_stop then [Call_WillStop p] else []) @ [Call_WillPop p]) ps)"

text \<open>
  A plain plan at address 1 that explains the stop and is done, below two plain plans
  that do not explain it.
\<close>

definition step_interrupted :: Thread where
  "step_interrupted =
     thread_of [0, 1, 2, 3]
       ((\<lambda>p. plain_plan)
          (0 := base_plan, 1 := plain_plan\<lparr>PlanExplainsStop := True, MischiefManaged := True\<rparr>))"

section \<open>Properties of the plan stack operations\<close>


lemma DiscardPlan_stack:
  "m_plan_stack (DiscardPlan s) =
     (if length (m_plan_stack s) > 1 then butlast (m_plan_stack s) else m_plan_stack s)"
  by (simp add: DiscardPlan_def Let_def)

lemma DiscardPlan_discarded:
  "m_discarded_plan_stack (DiscardPlan s) =
     (if length (m_plan_stack s) > 1 then m_discarded_plan_stack s @ [last (m_plan_stack s)]
      else m_discarded_plan_stack s)"
  by (simp add: DiscardPlan_def Let_def)

lemma DiscardPlan_completed:
  "m_completed_plan_stack (DiscardPlan s) = m_completed_plan_stack s"
  by (simp add: DiscardPlan_def Let_def)

lemma DiscardPlan_plans: "plans (DiscardPlan s) = plans s"
  by (simp add: DiscardPlan_def Let_def)

lemma DiscardPlan_pow_plans: "plans ((DiscardPlan ^^ n) s) = plans s"
  by (induction n) (simp_all add: DiscardPlan_plans)

lemma DiscardPlan_pow_completed:
  "m_completed_plan_stack ((DiscardPlan ^^ n) s) = m_completed_plan_stack s"
  by (induction n) (simp_all add: DiscardPlan_completed)

lemma DiscardPlan_pow_stack:
  "m_plan_stack s \<noteq> [] \<Longrightarrow>
   m_plan_stack ((DiscardPlan ^^ n) s) = take (max 1 (length (m_plan_stack s) - n)) (m_plan_stack s)"
proof (induction n)
  case 0
  then show ?case by simp
next
  case (Suc n)
  let ?stk = "m_plan_stack s"
  show ?case
  proof (cases "length ?stk - n > 1")
    case True
    then have "max 1 (length ?stk - n) = length ?stk - n" "max 1 (length ?stk - Suc n) = length ?stk - Suc n"
      by auto
    with Suc True show ?thesis
      by (simp add: DiscardPlan_stack butlast_take)
  next
    case False
    then have "max 1 (length ?stk - n) = 1" "max 1 (length ?stk - Suc n) = 1"
      by auto
    with Suc False show ?thesis
      by (simp add: DiscardPlan_stack)
  qed
qed

lemma last_take_nth: "0 < k \<Longrightarrow> k \<le> length xs \<Longrightarrow> last (take k xs) = xs ! (k - 1)"
  by (cases k) (simp_all add: take_Suc_conv_app_nth)

lemma DiscardPlan_pow_discarded:
  "m_plan_stack s \<noteq> [] \<Longrightarrow>
   m_discarded_plan_stack ((DiscardPlan ^^ n) s) =
     m_discarded_plan_stack s @ rev (drop (max 1 (length (m_plan_stack s) - n)) (m_plan_stack s))"
proof (induction n)
  case 0
  then show ?case by simp
next
  case (Suc n)
  let ?stk = "m_plan_stack s"
  show ?case
  proof (cases "length ?stk - n > 1")
    case True
    then have m: "max 1 (length ?stk - n) = length ?stk - n" "max 1 (length ?stk - Suc n) = length ?stk - Suc n"
      by auto
    have lt: "length ?stk - Suc n < length ?stk" using True by simp
    have "drop (length ?stk - Suc n) ?stk = ?stk ! (length ?stk - Suc n) # drop (length ?stk - n) ?stk"
      using Cons_nth_drop_Suc[OF lt] True by (simp add: Suc_diff_Suc)
    moreover have "last (take (length ?stk - n) ?stk) = ?stk ! (length ?stk - Suc n)"
      using True last_take_nth[of "length ?stk - n" ?stk] by simp
    ultimately show ?thesis using Suc True m
      by (simp add: DiscardPlan_discarded DiscardPlan_pow_stack)
  next
    case False
    then have "max 1 (length ?stk - n) = 1" "max 1 (length ?stk - Suc n) = 1"
      by auto
    with Suc False show ?thesis
      by (simp add: DiscardPlan_discarded DiscardPlan_pow_stack)
  qed
qed

lemma found_it_loop_absent:
  "up_to_plan_ptr \<notin> set stk \<Longrightarrow> i \<le> length stk - 1 \<Longrightarrow>
   found_it_loop i stk up_to_plan_ptr found_it = found_it"
proof (induction i arbitrary: found_it)
  case 0
  then show ?case by simp
next
  case (Suc i)
  then have "Suc i < length stk" by simp
  then have "stk ! Suc i \<in> set stk" by (rule nth_mem)
  with Suc.prems have "stk ! Suc i \<noteq> up_to_plan_ptr" by auto
  with Suc show ?case by simp
qed

lemma PopPlan_base:
  "m_plan_stack s \<noteq> [] \<Longrightarrow>
   m_plan_stack (PopPlan s) \<noteq> [] \<and> m_plan_stack (PopPlan s) ! 0 = m_plan_stack s ! 0"
  by (cases "m_plan_stack s" rule: rev_cases) (auto simp: PopPlan_def Let_def nth_append)

lemma DiscardPlan_base:
  "m_plan_stack s \<noteq> [] \<Longrightarrow>
   m_plan_stack (DiscardPlan s) \<noteq> [] \<and> m_plan_stack (DiscardPlan s) ! 0 = m_plan_stack s ! 0"
  by (cases "m_plan_stack s" rule: rev_cases) (auto simp: DiscardPlan_def Let_def nth_append)

lemma DiscardPlan_pow_base:
  "m_plan_stack s \<noteq> [] \<Longrightarrow>
   m_plan_stack ((DiscardPlan ^^ n) s) \<noteq> [] \<and>
   m_plan_stack ((DiscardPlan ^^ n) s) ! 0 = m_plan_stack s ! 0"
  by (simp add: DiscardPlan_pow_stack)

lemma discard_up_to_loop_base:
  "m_plan_stack s \<noteq> [] \<Longrightarrow>
   m_plan_stack (discard_up_to_loop i last_one p s) \<noteq> [] \<and>
   m_plan_stack (discard_up_to_loop i last_one p s) ! 0 = m_plan_stack s ! 0"
proof (induction i arbitrary: last_one s)
  case 0
  then show ?case by simp
next
  case (Suc i)
  show ?case
  proof (cases last_one)
    case True
    with Suc.prems show ?thesis by simp
  next
    case False
    from Suc.prems have d: "m_plan_stack (DiscardPlan s) \<noteq> []"
      "m_plan_stack (DiscardPlan s) ! 0 = m_plan_stack s ! 0"
      using DiscardPlan_base by auto
    from Suc.IH[OF d(1)] d(2) False show ?thesis by simp
  qed
qed

lemma DiscardThreadPlansUpToPlan_base:
  "m_plan_stack s \<noteq> [] \<Longrightarrow>
   m_plan_stack (DiscardThreadPlansUpToPlan t s) \<noteq> [] \<and>
   m_plan_stack (DiscardThreadPlansUpToPlan t s) ! 0 = m_plan_stack s ! 0"
  by (cases t) (simp_all add: DiscardThreadPlansUpToPlan_def Let_def DiscardPlan_pow_base discard_up_to_loop_base)

lemma find_master_plan_range:
  "- 1 \<le> find_master_plan n ps stk \<and> find_master_plan n ps stk < int n"
  by (induction n) auto

lemma find_master_plan_found:
  "0 \<le> find_master_plan n ps stk \<Longrightarrow> IsMasterPlan (ps (stk ! nat (find_master_plan n ps stk)))"
  by (induction n) (auto split: if_splits)

lemma find_master_plan_base:
  "0 < n \<Longrightarrow> IsMasterPlan (ps (stk ! 0)) \<Longrightarrow> 0 \<le> find_master_plan n ps stk"
  by (induction n) (auto split: if_splits)

text \<open>One pass of the loop body.\<close>

lemma loop_body_pow:
  "\<exists>k. (if (0::int) < idx then DiscardPlan ((DiscardPlan ^^ m) s) else (DiscardPlan ^^ m) s)
       = (DiscardPlan ^^ k) s"
proof (cases "0 < idx")
  case True
  have "DiscardPlan ((DiscardPlan ^^ m) s) = (DiscardPlan ^^ Suc m) s" by simp
  with True show ?thesis by metis
next
  case False
  then show ?thesis by auto
qed

lemma DiscardThreadPlans_loop_base:
  assumes "DiscardThreadPlans_loop d s = Some s'"
  shows "m_plan_stack s \<noteq> [] \<longrightarrow>
         (m_plan_stack s' \<noteq> [] \<and> m_plan_stack s' ! 0 = m_plan_stack s ! 0)"
proof (rule DiscardThreadPlans_loop.raw_induct
    [where P = "\<lambda>d s s'. m_plan_stack s \<noteq> [] \<longrightarrow>
         (m_plan_stack s' \<noteq> [] \<and> m_plan_stack s' ! 0 = m_plan_stack s ! 0)", OF _ assms],
    goal_cases)
  case (1 loop discard s discarda)
  show ?case
  proof
    assume ne: "m_plan_stack s \<noteq> []"
    define idx where "idx = find_master_plan (length (m_plan_stack s)) (plans s) (m_plan_stack s)"
    define d' where "d' = (if 0 \<le> idx then OkayToDiscard (plans s (m_plan_stack s ! nat idx)) else discard)"
    define m where "m = nat (int (length (m_plan_stack s)) - 1 - idx)"
    define s2 where "s2 = (if 0 < idx then DiscardPlan ((DiscardPlan ^^ m) s) else (DiscardPlan ^^ m) s)"
    from 1(2) have r: "(if d' then loop d' s2 else Some s) = Some discarda"
      unfolding Let_def idx_def d'_def m_def s2_def .
    show "m_plan_stack discarda \<noteq> [] \<and> m_plan_stack discarda ! 0 = m_plan_stack s ! 0"
    proof (cases d')
      case False
      with r ne show ?thesis by simp
    next
      case True
      with r have l: "loop d' s2 = Some discarda" by simp
      obtain k where k: "s2 = (DiscardPlan ^^ k) s"
        using loop_body_pow[of idx m s] unfolding s2_def by blast
      have b: "m_plan_stack s2 \<noteq> []" "m_plan_stack s2 ! 0 = m_plan_stack s ! 0"
        using DiscardPlan_pow_base[OF ne, of k] k by auto
      from 1(1)[OF l] b show ?thesis by simp
    qed
  qed
qed

lemma DiscardThreadPlans_loop_unfold:
  "DiscardThreadPlans_loop discard s =
     (if loop_discard discard s then DiscardThreadPlans_loop (loop_discard discard s) (loop_next s)
      else Some s)"
  unfolding loop_discard_def loop_next_def loop_idx_def
  by (rule DiscardThreadPlans_loop.simps[unfolded Let_def])

lemma loop_next_pow: "\<exists>k. loop_next s = (DiscardPlan ^^ k) s"
  unfolding loop_next_def by (rule loop_body_pow)

lemma loop_next_plans: "plans (loop_next s) = plans s"
  using loop_next_pow[of s] by (auto simp: DiscardPlan_pow_plans)

lemma loop_next_prefix:
  assumes "m_plan_stack s \<noteq> []"
  shows "\<exists>j. 1 \<le> j \<and> j \<le> length (m_plan_stack s) \<and> m_plan_stack (loop_next s) = take j (m_plan_stack s)"
proof -
  obtain k where k: "loop_next s = (DiscardPlan ^^ k) s" using loop_next_pow by blast
  let ?j = "max 1 (length (m_plan_stack s) - k)"
  have "m_plan_stack (loop_next s) = take ?j (m_plan_stack s)"
    using k DiscardPlan_pow_stack[OF assms, of k] by simp
  moreover have "1 \<le> ?j" "?j \<le> length (m_plan_stack s)" using assms
    by (auto simp: Suc_leI)
  ultimately show ?thesis by blast
qed

lemma loop_next_master:
  assumes ne: "m_plan_stack s \<noteq> []" and pos: "0 < loop_idx s"
  shows "m_plan_stack (loop_next s) = take (nat (loop_idx s)) (m_plan_stack s)"
proof -
  let ?n = "length (m_plan_stack s)"
  let ?m = "nat (int ?n - 1 - loop_idx s)"
  have lt: "loop_idx s < int ?n"
    using find_master_plan_range[of ?n "plans s" "m_plan_stack s"] by (simp add: loop_idx_def)
  have "loop_next s = (DiscardPlan ^^ Suc ?m) s" using pos by (simp add: loop_next_def)
  then have "m_plan_stack (loop_next s) = take (max 1 (?n - Suc ?m)) (m_plan_stack s)"
    using DiscardPlan_pow_stack[OF ne, of "Suc ?m"] by simp
  moreover have "max 1 (?n - Suc ?m) = nat (loop_idx s)" using pos lt by auto
  ultimately show ?thesis by simp
qed

lemma DiscardThreadPlans_loop_returns:
  assumes "m_plan_stack s \<noteq> []"
    and "IsMasterPlan (plans s (m_plan_stack s ! 0))"
    and "\<not> OkayToDiscard (plans s (m_plan_stack s ! 0))"
  shows "\<exists>s'. DiscardThreadPlans_loop discard s = Some s'"
  using assms
proof (induction "length (m_plan_stack s)" arbitrary: s discard rule: less_induct)
  case less
  let ?stk = "m_plan_stack s"
  show ?case
  proof (cases "loop_discard discard s")
    case False
    then show ?thesis by (subst DiscardThreadPlans_loop_unfold) simp
  next
    case True
    have ge: "0 \<le> loop_idx s"
      using find_master_plan_base[of "length ?stk" "plans s" ?stk] less.prems
      by (simp add: loop_idx_def)
    with True have ok: "OkayToDiscard (plans s (?stk ! nat (loop_idx s)))"
      by (simp add: loop_discard_def)
    with less.prems(3) have "nat (loop_idx s) \<noteq> 0" by metis
    with ge have pos: "0 < loop_idx s" by simp
    have lt: "loop_idx s < int (length ?stk)"
      using find_master_plan_range[of "length ?stk" "plans s" ?stk] by (simp add: loop_idx_def)
    have stk': "m_plan_stack (loop_next s) = take (nat (loop_idx s)) ?stk"
      by (rule loop_next_master[OF less.prems(1) pos])
    have len: "length (m_plan_stack (loop_next s)) < length ?stk"
      using stk' lt pos by simp
    have ne': "m_plan_stack (loop_next s) \<noteq> []" using stk' pos less.prems(1) by simp
    have b0: "m_plan_stack (loop_next s) ! 0 = ?stk ! 0" using stk' pos by simp
    have "\<exists>s'. DiscardThreadPlans_loop (loop_discard discard s) (loop_next s) = Some s'"
      using less.hyps[OF len ne'] less.prems(2,3) b0 by (simp add: loop_next_plans)
    with True show ?thesis by (subst DiscardThreadPlans_loop_unfold) simp
  qed
qed





text \<open>
  The hypothesis on the bottom plan is needed: on a stack whose bottom plan is a master
  plan and all of whose master plans are okay to discard, the loop does not return. The
  threads of the program have the base plan at the bottom.
\<close>

lemma DiscardThreadPlans_loop_diverges:
  assumes ret: "DiscardThreadPlans_loop d s = Some s'"
  shows "\<not> (m_plan_stack s \<noteq> [] \<and> IsMasterPlan (plans s (m_plan_stack s ! 0)) \<and>
            (\<forall>i<length (m_plan_stack s). IsMasterPlan (plans s (m_plan_stack s ! i)) \<longrightarrow>
                 OkayToDiscard (plans s (m_plan_stack s ! i))))"
proof (rule DiscardThreadPlans_loop.raw_induct
    [where P = "\<lambda>d s s'. \<not> (m_plan_stack s \<noteq> [] \<and> IsMasterPlan (plans s (m_plan_stack s ! 0)) \<and>
            (\<forall>i<length (m_plan_stack s). IsMasterPlan (plans s (m_plan_stack s ! i)) \<longrightarrow>
                 OkayToDiscard (plans s (m_plan_stack s ! i))))", OF _ ret],
    goal_cases)
  case (1 loop discard s y)
  let ?stk = "m_plan_stack s"
  from 1(2) have r: "(if loop_discard discard s then loop (loop_discard discard s) (loop_next s)
                      else Some s) = Some y"
    unfolding Let_def loop_discard_def loop_next_def loop_idx_def .
  show ?case
  proof
    assume bad: "?stk \<noteq> [] \<and> IsMasterPlan (plans s (?stk ! 0)) \<and>
            (\<forall>i<length ?stk. IsMasterPlan (plans s (?stk ! i)) \<longrightarrow> OkayToDiscard (plans s (?stk ! i)))"
    have ge: "0 \<le> loop_idx s"
      using find_master_plan_base[of "length ?stk" "plans s" ?stk] bad
      by (simp add: loop_idx_def)
    have lt: "nat (loop_idx s) < length ?stk"
      using find_master_plan_range[of "length ?stk" "plans s" ?stk] ge by (simp add: loop_idx_def)
    have "IsMasterPlan (plans s (?stk ! nat (loop_idx s)))"
      using find_master_plan_found[of "length ?stk" "plans s" ?stk] ge by (simp add: loop_idx_def)
    with bad lt have "OkayToDiscard (plans s (?stk ! nat (loop_idx s)))" by blast
    with ge have d: "loop_discard discard s" by (simp add: loop_discard_def)
    with r have "loop (loop_discard discard s) (loop_next s) = Some y" by simp
    from 1(1)[OF this] have nb: "\<not> (m_plan_stack (loop_next s) \<noteq> [] \<and>
         IsMasterPlan (plans (loop_next s) (m_plan_stack (loop_next s) ! 0)) \<and>
         (\<forall>i<length (m_plan_stack (loop_next s)).
             IsMasterPlan (plans (loop_next s) (m_plan_stack (loop_next s) ! i)) \<longrightarrow>
             OkayToDiscard (plans (loop_next s) (m_plan_stack (loop_next s) ! i))))" .
    from bad obtain j where j: "1 \<le> j" "j \<le> length ?stk" "m_plan_stack (loop_next s) = take j ?stk"
      using loop_next_prefix[of s] by blast
    have "m_plan_stack (loop_next s) \<noteq> []" using j bad by auto
    moreover have "IsMasterPlan (plans (loop_next s) (m_plan_stack (loop_next s) ! 0))"
      using j bad by (simp add: loop_next_plans)
    moreover have "\<forall>i<length (m_plan_stack (loop_next s)).
             IsMasterPlan (plans (loop_next s) (m_plan_stack (loop_next s) ! i)) \<longrightarrow>
             OkayToDiscard (plans (loop_next s) (m_plan_stack (loop_next s) ! i))"
      using j bad by (simp add: loop_next_plans)
    ultimately show False using nb by blast
  qed
qed

section \<open>The claims about the discard family\<close>

lemma PushPlan_base:
  assumes "PushPlan thread_plan_sp s = Some s'" and "m_plan_stack s \<noteq> []"
  shows "m_plan_stack s' \<noteq> [] \<and> m_plan_stack s' ! 0 = m_plan_stack s ! 0"
proof (cases thread_plan_sp)
  case None
  with assms show ?thesis by (simp add: PushPlan_def)
next
  case (Some p)
  with assms have "m_plan_stack s' = m_plan_stack s @ [p]"
    by (auto simp: PushPlan_def Let_def log_call_def split: if_splits)
  with assms(2) show ?thesis by (simp add: nth_append)
qed

lemma DiscardThreadPlans_force:
  assumes "m_plan_stack s \<noteq> []"
  shows "\<exists>s'. DiscardThreadPlans uninit True s = Some s' \<and>
           m_plan_stack s' = [m_plan_stack s ! 0] \<and>
           m_discarded_plan_stack s' = m_discarded_plan_stack s @ rev (tl (m_plan_stack s)) \<and>
           m_completed_plan_stack s' = m_completed_plan_stack s"
proof -
  let ?n = "length (m_plan_stack s)"
  let ?s' = "(DiscardPlan ^^ (?n - 1)) s"
  from assms have one: "max 1 (?n - (?n - 1)) = 1" by (cases "m_plan_stack s") auto
  have "m_plan_stack ?s' = take 1 (m_plan_stack s)"
    using DiscardPlan_pow_stack[OF assms, of "?n - 1"] one by simp
  then have stk: "m_plan_stack ?s' = [m_plan_stack s ! 0]"
    using assms by (cases "m_plan_stack s") auto
  have "m_discarded_plan_stack ?s' = m_discarded_plan_stack s @ rev (drop 1 (m_plan_stack s))"
    using DiscardPlan_pow_discarded[OF assms, of "?n - 1"] one by simp
  then have dis: "m_discarded_plan_stack ?s' = m_discarded_plan_stack s @ rev (tl (m_plan_stack s))"
    by (simp add: drop_Suc)
  have "DiscardThreadPlans uninit True s = Some ?s'" by (simp add: DiscardThreadPlans_def)
  with stk dis show ?thesis by (simp add: DiscardPlan_pow_completed)
qed

text \<open>
  Claim C1. On a thread whose plan stack is not empty, \<^verbatim>\<open>PopPlan\<close>,
  \<^verbatim>\<open>DiscardPlan\<close>, \<^verbatim>\<open>DiscardThreadPlansUpToPlan\<close> and
  \<^verbatim>\<open>DiscardThreadPlans\<close> (forced, or not forced whenever it returns, which it does
  when the base plan is a master plan that is not okay to discard) leave the stack
  non-empty with the same plan at index 0, and so does \<^verbatim>\<open>QueueThreadPlan\<close>; and
  \<^verbatim>\<open>PopPlan\<close> on a stack of exactly one plan changes nothing, neither the stack
  nor the two histories.
\<close>

theorem C1_base_plan_never_removed:
  assumes "m_plan_stack s \<noteq> []"
  shows "base_plan_kept s (PopPlan s) \<and> base_plan_kept s (DiscardPlan s) \<and>
         base_plan_kept s (DiscardThreadPlansUpToPlan up_to_plan_ptr s) \<and>
         (\<exists>s'. DiscardThreadPlans uninit True s = Some s' \<and> base_plan_kept s s') \<and>
         (\<forall>s'. DiscardThreadPlans uninit False s = Some s' \<longrightarrow> base_plan_kept s s') \<and>
         (IsMasterPlan (plans s (m_plan_stack s ! 0)) \<and>
            \<not> OkayToDiscard (plans s (m_plan_stack s ! 0)) \<longrightarrow>
            (\<exists>s'. DiscardThreadPlans uninit False s = Some s')) \<and>
         (length (m_plan_stack s) = 1 \<longrightarrow> PopPlan s = s) \<and>
         (\<forall>s'. QueueThreadPlan thread_plan_sp abort_other_plans s = Some s' \<longrightarrow>
               base_plan_kept s s')"
proof -
  have 1: "base_plan_kept s (PopPlan s)"
    using PopPlan_base[OF assms] by (simp add: base_plan_kept_def)
  have 2: "base_plan_kept s (DiscardPlan s)"
    using DiscardPlan_base[OF assms] by (simp add: base_plan_kept_def)
  have 3: "base_plan_kept s (DiscardThreadPlansUpToPlan up_to_plan_ptr s)"
    using DiscardThreadPlansUpToPlan_base[OF assms] by (simp add: base_plan_kept_def)
  have 4: "\<exists>s'. DiscardThreadPlans uninit True s = Some s' \<and> base_plan_kept s s'"
    using DiscardThreadPlans_force[OF assms, of uninit] by (auto simp: base_plan_kept_def)
  have 5: "\<forall>s'. DiscardThreadPlans uninit False s = Some s' \<longrightarrow> base_plan_kept s s'"
    using DiscardThreadPlans_loop_base[of uninit s] assms
    by (simp add: DiscardThreadPlans_def base_plan_kept_def)
  have 6: "IsMasterPlan (plans s (m_plan_stack s ! 0)) \<and>
            \<not> OkayToDiscard (plans s (m_plan_stack s ! 0)) \<longrightarrow>
            (\<exists>s'. DiscardThreadPlans uninit False s = Some s')"
    using DiscardThreadPlans_loop_returns[OF assms, of uninit]
    by (simp add: DiscardThreadPlans_def)
  have 7: "length (m_plan_stack s) = 1 \<longrightarrow> PopPlan s = s"
    by (simp add: PopPlan_def)
  have 8: "\<forall>s'. QueueThreadPlan thread_plan_sp abort_other_plans s = Some s' \<longrightarrow>
               base_plan_kept s s'"
  proof (intro allI impI)
    fix s'
    assume q: "QueueThreadPlan thread_plan_sp abort_other_plans s = Some s'"
    then obtain s1 where s1: "(if abort_other_plans then DiscardThreadPlans False True s else Some s) = Some s1"
      and p: "PushPlan thread_plan_sp s1 = Some s'"
      by (auto simp: QueueThreadPlan_def split: option.splits)
    have "m_plan_stack s1 \<noteq> [] \<and> m_plan_stack s1 ! 0 = m_plan_stack s ! 0"
      using s1 DiscardThreadPlans_force[OF assms, of False] assms
      by (auto split: if_splits)
    with PushPlan_base[OF p] show "base_plan_kept s s'" by (simp add: base_plan_kept_def)
  qed
  from 1 2 3 4 5 6 7 8 show ?thesis by blast
qed

text \<open>The hypothesis of C1 holds on the thread with three plans, and on a thread of one plan.\<close>

theorem C1_base_plan_never_removed_witness:
  "m_plan_stack three_plans \<noteq> [] \<and>
   m_plan_stack (PopPlan three_plans) = [0, 1] \<and>
   base_plan_kept three_plans (PopPlan three_plans) \<and>
   base_plan_kept three_plans (DiscardPlan three_plans) \<and>
   base_plan_kept three_plans (DiscardThreadPlansUpToPlan (Some 1) three_plans) \<and>
   (\<exists>s'. DiscardThreadPlans False True three_plans = Some s' \<and> base_plan_kept three_plans s') \<and>
   (\<exists>s'. DiscardThreadPlans False False three_plans = Some s') \<and>
   PopPlan (thread_of [0] (\<lambda>p. base_plan)) = thread_of [0] (\<lambda>p. base_plan)"
proof -
  have ne: "m_plan_stack three_plans \<noteq> []" by (simp add: three_plans_def thread_of_def)
  have m: "IsMasterPlan (plans three_plans (m_plan_stack three_plans ! 0)) \<and>
           \<not> OkayToDiscard (plans three_plans (m_plan_stack three_plans ! 0))"
    by (simp add: three_plans_def thread_of_def base_plan_def plain_plan_def)
  have p: "m_plan_stack (PopPlan three_plans) = [0, 1]"
    by (simp add: three_plans_def thread_of_def PopPlan_def)
  have ne1: "m_plan_stack (thread_of [0] (\<lambda>p. base_plan)) \<noteq> []" by (simp add: thread_of_def)
  have l1: "length (m_plan_stack (thread_of [0] (\<lambda>p. base_plan))) = 1" by (simp add: thread_of_def)
  from C1_base_plan_never_removed[OF ne, of "Some 1" False None False] m p ne
    C1_base_plan_never_removed[OF ne1, of None False None False] l1
  show ?thesis by blast
qed



text \<open>
  Claim C8. On a thread whose plan stack is not empty, \<^verbatim>\<open>DiscardThreadPlans(true)\<close>
  returns with exactly the base plan on the stack; every plan that was above the base
  plan is in the discarded history (they are appended to it, top first); the completed
  history is the one of before, so none of these plans is in it unless it already was.
\<close>

theorem C8_force_discards_all_but_base:
  assumes "m_plan_stack s \<noteq> []"
  shows "\<exists>s'. DiscardThreadPlans uninit True s = Some s' \<and>
           m_plan_stack s' = [m_plan_stack s ! 0] \<and>
           (\<forall>p \<in> set (tl (m_plan_stack s)). p \<in> set (m_discarded_plan_stack s')) \<and>
           m_discarded_plan_stack s' = m_discarded_plan_stack s @ rev (tl (m_plan_stack s)) \<and>
           m_completed_plan_stack s' = m_completed_plan_stack s \<and>
           (\<forall>p \<in> set (tl (m_plan_stack s)).
               p \<notin> set (m_completed_plan_stack s) \<longrightarrow> p \<notin> set (m_completed_plan_stack s'))"
proof -
  from DiscardThreadPlans_force[OF assms, of uninit] obtain s' where
    s': "DiscardThreadPlans uninit True s = Some s'"
        "m_plan_stack s' = [m_plan_stack s ! 0]"
        "m_discarded_plan_stack s' = m_discarded_plan_stack s @ rev (tl (m_plan_stack s))"
        "m_completed_plan_stack s' = m_completed_plan_stack s"
    by blast
  then show ?thesis by auto
qed

text \<open>C8 on the thread with three plans: plans 2 and 1 are discarded, plan 0 stays.\<close>

theorem C8_force_discards_all_but_base_witness:
  "m_plan_stack three_plans \<noteq> [] \<and>
   (\<exists>s'. DiscardThreadPlans False True three_plans = Some s' \<and>
      m_plan_stack s' = [0] \<and> m_discarded_plan_stack s' = [2, 1] \<and>
      m_completed_plan_stack s' = [])"
proof -
  have ne: "m_plan_stack three_plans \<noteq> []" by (simp add: three_plans_def thread_of_def)
  from C8_force_discards_all_but_base[OF ne, of False] ne show ?thesis
    by (auto simp: three_plans_def thread_of_def)
qed

text \<open>
  Claim C10. For a non-null plan pointer that is not on the active plan stack,
  \<^verbatim>\<open>DiscardThreadPlansUpToPlan\<close> leaves the thread as it is: the stack, the
  completed history and the discarded history are unchanged.
\<close>

theorem C10_discard_up_to_absent_plan:
  "p \<notin> set (m_plan_stack s) \<Longrightarrow> DiscardThreadPlansUpToPlan (Some p) s = s"
  by (simp add: DiscardThreadPlansUpToPlan_def Let_def found_it_loop_absent)

text \<open>C10 for plan 7, which is in the completed history and not on the stack.\<close>

theorem C10_discard_up_to_absent_plan_witness:
  "7 \<notin> set (m_plan_stack (three_plans\<lparr>m_completed_plan_stack := [7]\<rparr>)) \<and>
   DiscardThreadPlansUpToPlan (Some 7) (three_plans\<lparr>m_completed_plan_stack := [7]\<rparr>) =
     three_plans\<lparr>m_completed_plan_stack := [7]\<rparr>"
proof -
  have a: "7 \<notin> set (m_plan_stack (three_plans\<lparr>m_completed_plan_stack := [7]\<rparr>))"
    by (simp add: three_plans_def thread_of_def)
  from C10_discard_up_to_absent_plan[OF a] a show ?thesis by simp
qed

section \<open>The claims about stop information, votes and queueing\<close>

lemma GetCompletedPlan_loop_find:
  "n \<le> length completed \<Longrightarrow>
   GetCompletedPlan_loop n ps completed = find (\<lambda>p. \<not> GetPrivate (ps p)) (rev (take n completed))"
proof (induction n)
  case 0
  then show ?case by simp
next
  case (Suc n)
  then have "take (Suc n) completed = take n completed @ [completed ! n]"
    by (simp add: take_Suc_conv_app_nth)
  with Suc show ?case by simp
qed

lemma GetCompletedPlan_find: "GetCompletedPlan s = last_public_completed s"
  by (simp add: GetCompletedPlan_def last_public_completed_def GetCompletedPlan_loop_find)

lemma GetReturnValueObject_loop_find:
  "n \<le> length completed \<Longrightarrow>
   GetReturnValueObject_loop n ps completed =
     (case find (\<lambda>p. plan_GetReturnValueObject (ps p) \<noteq> None) (rev (take n completed)) of
        None \<Rightarrow> None
      | Some p \<Rightarrow> plan_GetReturnValueObject (ps p))"
proof (induction n)
  case 0
  then show ?case by simp
next
  case (Suc n)
  then have "take (Suc n) completed = take n completed @ [completed ! n]"
    by (simp add: take_Suc_conv_app_nth)
  with Suc show ?case by (auto split: option.splits)
qed

lemma GetReturnValueObject_find: "GetReturnValueObject s = first_return_value s"
  by (simp add: GetReturnValueObject_def first_return_value_def GetReturnValueObject_loop_find)

text \<open>
  Claim C5, amended. \<^verbatim>\<open>GetStopInfo\<close> resolves the stop reason in this order: if the
  most recent completed plan that is not private succeeded, a plan-complete StopInfo for
  that plan, carrying what \<^verbatim>\<open>Thread::GetReturnValueObject\<close> finds: the return value
  object of the most recent completed plan, private or not, that has one; otherwise the
  cached StopInfo, if it is valid and tagged with the stop id of the live process;
  otherwise the private stop reason.
\<close>

theorem C5_stop_info_priority:
  "(\<forall>p. last_public_completed s = Some p \<and> PlanSucceeded (plans s p) \<longrightarrow>
        GetStopInfo s = Some (CreateStopReasonWithPlan p (first_return_value s))) \<and>
   (\<not> (\<exists>p. last_public_completed s = Some p \<and> PlanSucceeded (plans s p)) \<longrightarrow>
      (\<forall>info stop_id.
          m_actual_stop_info_sp s = Some info \<and> IsValid info \<and> m_process_wp s = Some stop_id \<and>
          m_thread_stop_reason_stop_id s = stop_id \<longrightarrow>
          GetStopInfo s = Some info) \<and>
      (\<not> (\<exists>info stop_id.
          m_actual_stop_info_sp s = Some info \<and> IsValid info \<and> m_process_wp s = Some stop_id \<and>
          m_thread_stop_reason_stop_id s = stop_id) \<longrightarrow>
          GetStopInfo s = GetPrivateStopReason s))"
proof -
  have c: "cached_stop_info_current s \<longleftrightarrow>
        (\<exists>info stop_id.
          m_actual_stop_info_sp s = Some info \<and> IsValid info \<and> m_process_wp s = Some stop_id \<and>
          m_thread_stop_reason_stop_id s = stop_id)"
    by (auto simp: cached_stop_info_current_def split: option.splits)
  show ?thesis
    unfolding c[symmetric]
    by (auto simp: GetStopInfo_def GetCompletedPlan_find GetReturnValueObject_find
        cached_stop_info_current_def split: option.splits)
qed

text \<open>C5 on a thread whose public completed plan succeeded.\<close>

theorem C5_stop_info_priority_witness:
  "last_public_completed returned_from_private = Some 1 \<and>
   PlanSucceeded (plans returned_from_private 1) \<and>
   first_return_value returned_from_private = Some 7 \<and>
   GetStopInfo returned_from_private = Some (CreateStopReasonWithPlan 1 (Some 7))"
proof -
  have a: "last_public_completed returned_from_private = Some 1"
    by (simp add: last_public_completed_def returned_from_private_def thread_of_def plain_plan_def)
  have b: "PlanSucceeded (plans returned_from_private 1)"
    by (simp add: returned_from_private_def thread_of_def plain_plan_def)
  have r: "first_return_value returned_from_private = Some 7"
    by (simp add: first_return_value_def returned_from_private_def thread_of_def plain_plan_def)
  from C5_stop_info_priority[of returned_from_private] a b r show ?thesis by simp
qed

text \<open>
  The claim as stated says that the StopInfo carries the return value object of the
  completed plan it names. Here that plan has none, and the StopInfo carries the object
  of the private plan completed after it.
\<close>

theorem C5_return_value_counterexample:
  "GetCompletedPlan returned_from_private = Some 1 \<and>
   PlanSucceeded (plans returned_from_private 1) \<and>
   plan_GetReturnValueObject (plans returned_from_private 1) = None \<and>
   GetStopInfo returned_from_private = Some (CreateStopReasonWithPlan 1 (Some 7)) \<and>
   GetStopInfo returned_from_private \<noteq>
     Some (CreateStopReasonWithPlan 1 (plan_GetReturnValueObject (plans returned_from_private 1)))"
  by (simp add: GetStopInfo_def GetCompletedPlan_def GetReturnValueObject_def
      returned_from_private_def thread_of_def plain_plan_def CreateStopReasonWithPlan_def
      numeral_2_eq_2)

text \<open>
  Claim C6, amended. \<^verbatim>\<open>ShouldReportStop\<close> has no opinion when the resume state or
  the temporary resume state is suspended or invalid, or the thread has no stop reason.
  \<^verbatim>\<open>ShouldReportRun\<close> has no opinion when the resume state is suspended or invalid;
  it reads neither the temporary resume state nor the stop reason. Otherwise each asks
  the last plan of the completed history when there is one, private or not, and else
  the top plan of the stack.
\<close>

theorem C6_votes:
  "(m_resume_state s = eStateSuspended \<or> m_resume_state s = eStateInvalid \<or>
    m_temporary_resume_state s = eStateSuspended \<or> m_temporary_resume_state s = eStateInvalid \<or>
    \<not> ThreadStoppedForAReason s \<longrightarrow> ShouldReportStop s = Some eVoteNoOpinion) \<and>
   (m_resume_state s = eStateSuspended \<or> m_resume_state s = eStateInvalid \<longrightarrow>
      ShouldReportRun s = Some eVoteNoOpinion) \<and>
   (\<not> (m_resume_state s = eStateSuspended \<or> m_resume_state s = eStateInvalid \<or>
       m_temporary_resume_state s = eStateSuspended \<or> m_temporary_resume_state s = eStateInvalid \<or>
       \<not> ThreadStoppedForAReason s) \<longrightarrow>
      (m_completed_plan_stack s \<noteq> [] \<longrightarrow>
         ShouldReportStop s = Some (plan_ShouldReportStop (plans s (last (m_completed_plan_stack s))))) \<and>
      (m_completed_plan_stack s = [] \<and> m_plan_stack s \<noteq> [] \<longrightarrow>
         ShouldReportStop s = Some (plan_ShouldReportStop (plans s (last (m_plan_stack s)))))) \<and>
   (\<not> (m_resume_state s = eStateSuspended \<or> m_resume_state s = eStateInvalid) \<longrightarrow>
      (m_completed_plan_stack s \<noteq> [] \<longrightarrow>
         ShouldReportRun s = Some (plan_ShouldReportRun (plans s (last (m_completed_plan_stack s))))) \<and>
      (m_completed_plan_stack s = [] \<and> m_plan_stack s \<noteq> [] \<longrightarrow>
         ShouldReportRun s = Some (plan_ShouldReportRun (plans s (last (m_plan_stack s))))))"
  by (auto simp: ShouldReportStop_def ShouldReportRun_def Let_def GetCurrentPlan_def)

text \<open>
  C6 on a thread held back for one resume, and on a thread with a private plan last in
  its completed history.
\<close>

theorem C6_votes_witness:
  "m_temporary_resume_state held_back = eStateSuspended \<and>
   ShouldReportStop held_back = Some eVoteNoOpinion \<and>
   m_resume_state held_back \<noteq> eStateSuspended \<and> m_resume_state held_back \<noteq> eStateInvalid \<and>
   m_completed_plan_stack held_back = [] \<and> m_plan_stack held_back \<noteq> [] \<and>
   ShouldReportRun held_back = Some (plan_ShouldReportRun (plans held_back (last (m_plan_stack held_back)))) \<and>
   ShouldReportStop (returned_from_private\<lparr>GetPrivateStopReason := Some (CreateStopReasonWithPlan 1 None)\<rparr>)
     = Some (plan_ShouldReportStop (plans returned_from_private 2))"
proof -
  have a: "m_temporary_resume_state held_back = eStateSuspended"
    "m_resume_state held_back \<noteq> eStateSuspended" "m_resume_state held_back \<noteq> eStateInvalid"
    "m_completed_plan_stack held_back = []" "m_plan_stack held_back \<noteq> []"
    by (simp_all add: held_back_def thread_of_def)
  let ?t = "returned_from_private\<lparr>GetPrivateStopReason := Some (CreateStopReasonWithPlan 1 None)\<rparr>"
  have b: "\<not> (m_resume_state ?t = eStateSuspended \<or> m_resume_state ?t = eStateInvalid \<or>
       m_temporary_resume_state ?t = eStateSuspended \<or> m_temporary_resume_state ?t = eStateInvalid \<or>
       \<not> ThreadStoppedForAReason ?t)" "m_completed_plan_stack ?t \<noteq> []"
      "last (m_completed_plan_stack ?t) = 2" "plans ?t = plans returned_from_private"
    by (simp_all add: returned_from_private_def thread_of_def ThreadStoppedForAReason_def)
  from C6_votes[of held_back] C6_votes[of ?t] a b show ?thesis by simp
qed

text \<open>
  The claim as stated gives \<^verbatim>\<open>ShouldReportRun\<close> no opinion when the temporary
  resume state is suspended or there is no stop reason. This thread has both, and the
  vote is the plan's.
\<close>

theorem C6_report_run_counterexample:
  "m_temporary_resume_state held_back = eStateSuspended \<and>
   GetPrivateStopReason held_back = None \<and>
   ShouldReportRun held_back = Some eVoteYes \<and>
   ShouldReportRun held_back \<noteq> Some eVoteNoOpinion"
  by (simp add: ShouldReportRun_def GetCurrentPlan_def held_back_def thread_of_def base_plan_def
      plain_plan_def)

text \<open>
  Claim C9. When the new plan fails \<^verbatim>\<open>ValidatePlan\<close>,
  \<^verbatim>\<open>QueueThreadPlanForStepOut\<close> and \<^verbatim>\<open>QueueThreadPlanForStepThrough\<close> return a
  null pointer and leave the thread as it is: nothing is queued or discarded, also when
  \<^verbatim>\<open>abort_other_plans\<close> is set, and the size of the plan stack is unchanged.
\<close>

theorem C9_validation_failure_queues_nothing:
  "\<not> ValidatePlan new_plan \<Longrightarrow>
   QueueThreadPlanForStepOut abort_other_plans p new_plan s = Some (None, s) \<and>
   QueueThreadPlanForStepThrough abort_other_plans p new_plan s = Some (None, s)"
  by (simp add: QueueThreadPlanForStepOut_def QueueThreadPlanForStepThrough_def)

text \<open>C9 for an invalid plan queued with \<^verbatim>\<open>abort_other_plans\<close> on three plans.\<close>

theorem C9_validation_failure_queues_nothing_witness:
  "\<not> ValidatePlan (plain_plan\<lparr>ValidatePlan := False\<rparr>) \<and>
   QueueThreadPlanForStepOut True 3 (plain_plan\<lparr>ValidatePlan := False\<rparr>) three_plans
     = Some (None, three_plans) \<and>
   QueueThreadPlanForStepThrough True 3 (plain_plan\<lparr>ValidatePlan := False\<rparr>) three_plans
     = Some (None, three_plans) \<and>
   length (m_plan_stack three_plans) = 3"
proof -
  have a: "\<not> ValidatePlan (plain_plan\<lparr>ValidatePlan := False\<rparr>)" by simp
  from C9_validation_failure_queues_nothing[OF a, of True 3 three_plans] a show ?thesis
    by (simp add: three_plans_def thread_of_def)
qed

section \<open>The claim about \<^verbatim>\<open>WillResume\<close>\<close>

lemma previous_in_stack_nth:
  "distinct stk \<Longrightarrow> i < length stk \<Longrightarrow> n < length stk \<Longrightarrow>
   previous_in_stack n stk (stk ! i) = (if 0 < i \<and> i \<le> n then Some (stk ! (i - 1)) else None)"
proof (induction n)
  case 0
  then show ?case by auto
next
  case (Suc n)
  then have eq: "stk ! i = stk ! Suc n \<longleftrightarrow> i = Suc n"
    by (simp add: nth_eq_iff_index_eq)
  show ?case
  proof (cases "i = Suc n")
    case True
    then show ?thesis by simp
  next
    case False
    with Suc eq show ?thesis by auto
  qed
qed

lemma previous_in_stack_absent:
  "p \<notin> set stk \<Longrightarrow> n \<le> length stk - 1 \<Longrightarrow> previous_in_stack n stk p = None"
proof (induction n)
  case 0
  then show ?case by simp
next
  case (Suc n)
  then have "Suc n < length stk" by simp
  then have "stk ! Suc n \<in> set stk" by (rule nth_mem)
  with Suc.prems have ne: "p \<noteq> stk ! Suc n" by auto
  from Suc.prems have "n \<le> length stk - 1" by simp
  with Suc.IH Suc.prems(1) ne show ?case by simp
qed

lemma GetPreviousPlan_nth:
  assumes d: "distinct (m_plan_stack s)" and i: "i < length (m_plan_stack s)"
    and c: "m_plan_stack s ! i \<notin> set (m_completed_plan_stack s)"
  shows "GetPreviousPlan s (Some (m_plan_stack s ! i)) =
           (if i = 0 then None else Some (m_plan_stack s ! (i - 1)))"
proof -
  define p where "p = m_plan_stack s ! i"
  define stk where "stk = m_plan_stack s"
  define completed where "completed = m_completed_plan_stack s"
  have c': "p \<notin> set completed" using c by (simp add: p_def completed_def)
  have 1: "previous_in_stack (length completed - 1) completed p = None"
    using previous_in_stack_absent[OF c'] by simp
  have 2: "\<not> (length completed > 0 \<and> completed ! 0 = p)"
    using c' by (cases completed) auto
  from i have le: "i \<le> length stk - 1" and lt: "length stk - 1 < length stk"
    by (simp_all add: stk_def)
  have 3: "previous_in_stack (length stk - 1) stk p =
             (if i = 0 then None else Some (stk ! (i - 1)))"
    using previous_in_stack_nth[OF d[folded stk_def] i[folded stk_def] lt] le
    by (simp add: p_def stk_def)
  have "GetPreviousPlan s (Some p) = previous_in_stack (length stk - 1) stk p"
    using 1 2 by (auto simp: GetPreviousPlan_def completed_def[symmetric] stk_def[symmetric])
  with 3 show ?thesis by (simp add: p_def stk_def)
qed

lemma log_call_fields:
  "m_plan_stack (log_call c s) = m_plan_stack s"
  "m_completed_plan_stack (log_call c s) = m_completed_plan_stack s"
  "m_discarded_plan_stack (log_call c s) = m_discarded_plan_stack s"
  "plans (log_call c s) = plans s"
  "calls (log_call c s) = calls s @ [c]"
  by (simp_all add: log_call_def)

lemma WillResume_lower_plans_walk:
  "distinct (m_plan_stack s) \<Longrightarrow> m_completed_plan_stack s = [] \<Longrightarrow> i < length (m_plan_stack s) \<Longrightarrow>
   WillResume_lower_plans rs (m_plan_stack s ! i) s =
     Some (s\<lparr>calls := calls s @ map (\<lambda>q. Call_WillResume q rs False) (rev (take i (m_plan_stack s)))\<rparr>)"
proof (induction i arbitrary: s)
  case 0
  then have "GetPreviousPlan s (Some (m_plan_stack s ! 0)) = None"
    using GetPreviousPlan_nth[of s 0] by simp
  then show ?case by (subst WillResume_lower_plans.simps) simp
next
  case (Suc i)
  let ?s1 = "log_call (Call_WillResume (m_plan_stack s ! i) rs False) s"
  have p: "GetPreviousPlan s (Some (m_plan_stack s ! Suc i)) = Some (m_plan_stack s ! i)"
    using GetPreviousPlan_nth[of s "Suc i"] Suc.prems by simp
  have "WillResume_lower_plans rs (m_plan_stack ?s1 ! i) ?s1 =
     Some (?s1\<lparr>calls := calls ?s1 @ map (\<lambda>q. Call_WillResume q rs False) (rev (take i (m_plan_stack ?s1)))\<rparr>)"
    using Suc.prems by (intro Suc.IH) (simp_all add: log_call_fields)
  then have r: "WillResume_lower_plans rs (m_plan_stack s ! i) ?s1 =
     Some (s\<lparr>calls := calls s @ map (\<lambda>q. Call_WillResume q rs False) (rev (take (Suc i) (m_plan_stack s)))\<rparr>)"
    using Suc.prems by (simp add: log_call_def take_Suc_conv_app_nth)
  show ?case
    by (subst WillResume_lower_plans.simps) (simp add: p r)
qed

text \<open>
  Claim C4, amended. On a thread with a live process and a plan stack without repeated
  pointers, \<^verbatim>\<open>WillResume\<close> returns the answer of the top plan's
  \<^verbatim>\<open>WillResume\<close>; the completed and the discarded history are empty and the
  temporary resume state is \<open>resume_state\<close>; the cached StopInfo is cleared when the top
  plan answers true (a real resume) and is left as it is when the plan answers false
  (a fake resume); the top plan is told first, then every plan below it in turn.
\<close>

theorem C4_will_resume:
  assumes ne: "m_plan_stack s \<noteq> []" and d: "distinct (m_plan_stack s)"
    and pr: "m_process_wp s \<noteq> None"
  shows "\<exists>s'. WillResume resume_state s =
                 Some (plan_WillResume (plans s (last (m_plan_stack s))) resume_state True, s') \<and>
           m_completed_plan_stack s' = [] \<and> m_discarded_plan_stack s' = [] \<and>
           m_temporary_resume_state s' = resume_state \<and>
           m_actual_stop_info_sp s' =
             (if plan_WillResume (plans s (last (m_plan_stack s))) resume_state True then None
              else m_actual_stop_info_sp s) \<and>
           m_plan_stack s' = m_plan_stack s \<and>
           calls s' = calls s @
             (if notifies_stop_info s then [Call_StopInfo_WillResume resume_state] else []) @
             Call_WillResume (last (m_plan_stack s)) resume_state True #
             map (\<lambda>q. Call_WillResume q resume_state False) (rev (butlast (m_plan_stack s)))"
proof -
  from pr obtain process_stop_id where pid: "m_process_wp s = Some process_stop_id" by auto
  define s2 where "s2 = s\<lparr>m_completed_plan_stack := [], m_discarded_plan_stack := [],
                          m_temporary_resume_state := resume_state\<rparr>"
  define s3 where "s3 = (if notifies_stop_info s then log_call (Call_StopInfo_WillResume resume_state) s2 else s2)"
  define top where "top = last (m_plan_stack s)"
  define s4 where "s4 = log_call (Call_WillResume top resume_state True) s3"
  have s3_alt: "s3 = (if m_thread_stop_reason_stop_id s2 = process_stop_id \<and>
                          (case m_actual_stop_info_sp s2 of None \<Rightarrow> False | Some i \<Rightarrow> IsValid i)
                       then (case GetPrivateStopReason s2 of
                               None \<Rightarrow> s2
                             | Some stop_info \<Rightarrow> log_call (Call_StopInfo_WillResume resume_state) s2)
                       else s2)"
    using pid by (auto simp: s3_def s2_def notifies_stop_info_def split: option.splits)
  have stk3: "m_plan_stack s3 = m_plan_stack s" by (simp add: s3_def s2_def log_call_def)
  have stk4: "m_plan_stack s4 = m_plan_stack s" "m_completed_plan_stack s4 = []"
    by (simp_all add: s4_def s3_def s2_def log_call_def)
  have cur: "GetCurrentPlan s3 = Some top" using ne by (simp add: GetCurrentPlan_def stk3 top_def)
  let ?n = "length (m_plan_stack s)"
  have topn: "m_plan_stack s ! (?n - 1) = top" using ne by (simp add: top_def last_conv_nth)
  have "WillResume_lower_plans resume_state (m_plan_stack s4 ! (?n - 1)) s4 =
     Some (s4\<lparr>calls := calls s4 @ map (\<lambda>q. Call_WillResume q resume_state False)
                                      (rev (take (?n - 1) (m_plan_stack s4)))\<rparr>)"
    using d ne stk4 by (intro WillResume_lower_plans_walk) simp_all
  then have walk: "WillResume_lower_plans resume_state top s4 =
     Some (s4\<lparr>calls := calls s4 @ map (\<lambda>q. Call_WillResume q resume_state False)
                                      (rev (butlast (m_plan_stack s)))\<rparr>)"
    unfolding stk4 topn by (simp add: butlast_conv_take)
  have pl3: "plans s3 = plans s" by (simp add: s3_def s2_def log_call_def)
  have pid2: "m_process_wp s2 = Some process_stop_id" using pid by (simp add: s2_def)
  have pl3': "plans s3 top = plans s top" by (simp add: pl3)
  have W: "WillResume resume_state s =
     (case WillResume_lower_plans resume_state top s4 of
        None \<Rightarrow> None
      | Some s5 \<Rightarrow> Some (plan_WillResume (plans s top) resume_state True,
                         if plan_WillResume (plans s top) resume_state True
                         then s5\<lparr>m_actual_stop_info_sp := None\<rparr> else s5))"
    by (simp only: WillResume_def Let_def s2_def[symmetric] pid2 option.case s3_alt[symmetric]
        cur pl3' s4_def[symmetric])
  show ?thesis
    unfolding W walk top_def[symmetric]
    by (simp add: s4_def s3_def s2_def log_call_def)
qed

text \<open>C4 on three plans that all answer true: the cached StopInfo is cleared.\<close>

theorem C4_will_resume_witness:
  "m_plan_stack (three_plans\<lparr>m_actual_stop_info_sp := Some signal_stop\<rparr>) \<noteq> [] \<and>
   distinct (m_plan_stack (three_plans\<lparr>m_actual_stop_info_sp := Some signal_stop\<rparr>)) \<and>
   m_process_wp (three_plans\<lparr>m_actual_stop_info_sp := Some signal_stop\<rparr>) \<noteq> None \<and>
   (\<exists>s'. WillResume eStateStepping (three_plans\<lparr>m_actual_stop_info_sp := Some signal_stop\<rparr>)
            = Some (True, s') \<and>
      m_completed_plan_stack s' = [] \<and> m_discarded_plan_stack s' = [] \<and>
      m_temporary_resume_state s' = eStateStepping \<and> m_actual_stop_info_sp s' = None \<and>
      calls s' = [Call_WillResume 2 eStateStepping True, Call_WillResume 1 eStateStepping False,
                  Call_WillResume 0 eStateStepping False])"
proof -
  let ?t = "three_plans\<lparr>m_actual_stop_info_sp := Some signal_stop\<rparr>"
  have a: "m_plan_stack ?t \<noteq> []" "distinct (m_plan_stack ?t)" "m_process_wp ?t \<noteq> None"
    by (simp_all add: three_plans_def thread_of_def)
  have b: "plan_WillResume (plans ?t (last (m_plan_stack ?t))) eStateStepping True"
    "\<not> notifies_stop_info ?t" "calls ?t = []" "butlast (m_plan_stack ?t) = [0, 1]"
    "last (m_plan_stack ?t) = 2"
    by (simp_all add: three_plans_def thread_of_def plain_plan_def notifies_stop_info_def)
  from C4_will_resume[OF a, of eStateStepping] a b show ?thesis by auto
qed

text \<open>
  The claim as stated says that a fake resume clears the cached StopInfo. Here the top
  plan answers false and the cached StopInfo is still there.
\<close>

theorem C4_fake_resume_counterexample:
  "plan_WillResume (plans faking_resume 0) eStateRunning True = False \<and>
   m_actual_stop_info_sp faking_resume = Some signal_stop \<and>
   WillResume eStateRunning faking_resume =
     Some (False, faking_resume\<lparr>calls := [Call_StopInfo_WillResume eStateRunning,
                                          Call_WillResume 0 eStateRunning True]\<rparr>) \<and>
   m_actual_stop_info_sp
     (faking_resume\<lparr>calls := [Call_StopInfo_WillResume eStateRunning,
                              Call_WillResume 0 eStateRunning True]\<rparr>) \<noteq> None"
  by (simp add: WillResume_def WillResume_lower_plans.simps GetPreviousPlan_def GetCurrentPlan_def
      log_call_def faking_resume_def thread_of_def base_plan_def plain_plan_def signal_stop_def)

section \<open>The claims about \<^verbatim>\<open>ShouldStop\<close>\<close>

lemma PopPlan_WillStop_if:
  assumes "m_plan_stack s = below @ [c]" and "below \<noteq> []"
  shows "PopPlan (WillStop_if sh c s) =
           s\<lparr>m_completed_plan_stack := m_completed_plan_stack s @ [c],
             calls := calls s @ pop_calls sh [c],
             m_plan_stack := below\<rparr>"
  using assms
  by (cases below) (simp_all add: PopPlan_def WillStop_if_def log_call_def pop_calls_def)

text \<open>
  Claim C3, amended. One pass of the plan loop over a top plan \<open>c\<close> that is not the
  base plan: a plan that is not done stays and its verdict ends the loop; a plan that is
  done is popped to the completed history, after \<^verbatim>\<open>WillStop\<close> when its verdict is
  to stop; the loop then ends with that verdict when the plan is a master plan that
  wants to stop and is not okay to discard, and else goes on with the new top plan.
\<close>

theorem C3_plan_loop_pops_done_plans:
  assumes top: "m_plan_stack s = below @ [c]" and nb: "\<not> PlanIsBasePlan s c"
  shows "(\<not> MischiefManaged (plans s c) \<longrightarrow>
            ShouldStop_plan_loop c should_stop s = Some (s, c, plan_ShouldStop (plans s c))) \<and>
         (MischiefManaged (plans s c) \<and> plan_ShouldStop (plans s c) \<and> IsMasterPlan (plans s c) \<and>
            \<not> OkayToDiscard (plans s c) \<longrightarrow>
            ShouldStop_plan_loop c should_stop s =
              Some (s\<lparr>m_completed_plan_stack := m_completed_plan_stack s @ [c],
                      calls := calls s @ [Call_WillStop c, Call_WillPop c],
                      m_plan_stack := below\<rparr>, c, True)) \<and>
         (MischiefManaged (plans s c) \<and>
            \<not> (plan_ShouldStop (plans s c) \<and> IsMasterPlan (plans s c) \<and>
               \<not> OkayToDiscard (plans s c)) \<longrightarrow>
            ShouldStop_plan_loop c should_stop s =
              ShouldStop_plan_loop (last below) (plan_ShouldStop (plans s c))
                (s\<lparr>m_completed_plan_stack := m_completed_plan_stack s @ [c],
                   calls := calls s @ pop_calls (plan_ShouldStop (plans s c)) [c],
                   m_plan_stack := below\<rparr>))"
proof -
  from top nb have ne: "below \<noteq> []" by (auto simp: PlanIsBasePlan_def split: if_splits)
  note pop = PopPlan_WillStop_if[OF top ne]
  have cur: "GetCurrentPlan (s\<lparr>m_completed_plan_stack := m_completed_plan_stack s @ [c],
                   calls := calls s @ pop_calls sh [c],
                   m_plan_stack := below\<rparr>) = Some (last below)" for sh
    using ne by (simp add: GetCurrentPlan_def)
  show ?thesis
    using nb by (simp add: pop cur) (simp add: pop_calls_def)
qed

text \<open>C3 on a done master plan above the base plan.\<close>

theorem C3_plan_loop_pops_done_plans_witness:
  "m_plan_stack master_on_top = [0] @ [1] \<and> \<not> PlanIsBasePlan master_on_top 1 \<and>
   MischiefManaged (plans master_on_top 1) \<and> plan_ShouldStop (plans master_on_top 1) \<and>
   IsMasterPlan (plans master_on_top 1) \<and> \<not> OkayToDiscard (plans master_on_top 1) \<and>
   ShouldStop_plan_loop 1 False master_on_top =
     Some (master_on_top\<lparr>m_completed_plan_stack := m_completed_plan_stack master_on_top @ [1],
             calls := calls master_on_top @ [Call_WillStop 1, Call_WillPop 1],
             m_plan_stack := [0]\<rparr>, 1, True)"
proof -
  have a: "m_plan_stack master_on_top = [0] @ [1]" "\<not> PlanIsBasePlan master_on_top 1"
    by (simp_all add: master_on_top_def thread_of_def PlanIsBasePlan_def done_master_def plain_plan_def)
  have b: "MischiefManaged (plans master_on_top 1)" "plan_ShouldStop (plans master_on_top 1)"
    "IsMasterPlan (plans master_on_top 1)" "\<not> OkayToDiscard (plans master_on_top 1)"
    by (simp_all add: master_on_top_def thread_of_def done_master_def plain_plan_def)
  from C3_plan_loop_pops_done_plans[OF a, of False] a b show ?thesis by simp
qed

text \<open>
  The claim as stated says that such a master plan stays on the active stack. It is
  popped to the completed history like any other plan that is done.
\<close>

theorem C3_master_plan_popped_counterexample:
  "ShouldStop_plan_loop 1 True master_on_top =
     Some (master_on_top\<lparr>m_completed_plan_stack := [1],
             calls := [Call_WillStop 1, Call_WillPop 1], m_plan_stack := [0]\<rparr>, 1, True) \<and>
   1 \<notin> set (m_plan_stack (master_on_top\<lparr>m_completed_plan_stack := [1],
             calls := [Call_WillStop 1, Call_WillPop 1], m_plan_stack := [0]\<rparr>))"
  by (simp add: PlanIsBasePlan_def PopPlan_def WillStop_if_def log_call_def master_on_top_def
      thread_of_def done_master_def base_plan_def plain_plan_def)

lemma GetPreviousPlan_split:
  assumes stk: "m_plan_stack s = xs @ a # b # ys" and d: "distinct (m_plan_stack s)"
    and c: "b \<notin> set (m_completed_plan_stack s)"
  shows "GetPreviousPlan s (Some b) = Some a"
proof -
  have i: "Suc (length xs) < length (m_plan_stack s)" by (simp add: stk)
  have b: "m_plan_stack s ! Suc (length xs) = b" by (simp add: stk nth_append)
  have a: "m_plan_stack s ! length xs = a" by (simp add: stk nth_append)
  from GetPreviousPlan_nth[OF d i] c b a show ?thesis by simp
qed

lemma ShouldStop_pop_loop_pops:
  "m_plan_stack s = lower @ ys \<Longrightarrow> lower \<noteq> [] \<Longrightarrow> ys \<noteq> [] \<Longrightarrow> distinct (lower @ ys) \<Longrightarrow>
   ShouldStop_pop_loop sh (Some (last lower)) (last ys) s =
     Some (last lower,
           s\<lparr>m_completed_plan_stack := m_completed_plan_stack s @ rev ys,
             calls := calls s @ pop_calls sh (rev ys),
             m_plan_stack := lower\<rparr>)"
proof (induction ys arbitrary: s rule: rev_induct)
  case Nil
  then show ?case by simp
next
  case (snoc y ys)
  let ?s1 = "s\<lparr>m_completed_plan_stack := m_completed_plan_stack s @ [y],
               calls := calls s @ pop_calls sh [y],
               m_plan_stack := lower @ ys\<rparr>"
  have pop: "PopPlan (WillStop_if sh y s) = ?s1"
    using PopPlan_WillStop_if[of s "lower @ ys" y sh] snoc.prems by simp
  show ?case
  proof (cases "ys = []")
    case True
    then have "GetCurrentPlan ?s1 = Some (last lower)"
      using snoc.prems by (simp add: GetCurrentPlan_def)
    then show ?thesis using True
      by (subst ShouldStop_pop_loop.simps) (simp add: pop)
  next
    case False
    then have cur: "GetCurrentPlan ?s1 = Some (last ys)"
      by (simp add: GetCurrentPlan_def)
    have "last ys \<in> set ys" "last lower \<in> set lower" using False snoc.prems by simp_all
    with snoc.prems(4) have neq: "last ys \<noteq> last lower" by auto
    have "ShouldStop_pop_loop sh (Some (last lower)) (last ys) ?s1 =
      Some (last lower,
           ?s1\<lparr>m_completed_plan_stack := m_completed_plan_stack ?s1 @ rev ys,
             calls := calls ?s1 @ pop_calls sh (rev ys),
             m_plan_stack := lower\<rparr>)"
      using snoc.prems False by (intro snoc.IH) simp_all
    then have r: "ShouldStop_pop_loop sh (Some (last lower)) (last ys) ?s1 =
      Some (last lower,
           s\<lparr>m_completed_plan_stack := m_completed_plan_stack s @ rev (ys @ [y]),
             calls := calls s @ pop_calls sh (rev (ys @ [y])),
             m_plan_stack := lower\<rparr>)"
      by (simp add: pop_calls_def)
    show ?thesis
      by (subst ShouldStop_pop_loop.simps) (simp add: pop cur neq r)
  qed
qed

lemma ShouldStop_scan_finds:
  assumes d: "distinct (m_plan_stack s)"
    and c: "set (m_plan_stack s) \<inter> set (m_completed_plan_stack s) = {}"
    and q: "PlanExplainsStop (plans s q)" "MischiefManaged (plans s q)"
  shows "m_plan_stack s = lower @ q # us @ x # rest \<Longrightarrow>
         \<forall>p \<in> set us. \<not> PlanExplainsStop (plans s p) \<Longrightarrow>
         ShouldStop_scan x sh0 cur s =
           (case ShouldStop_pop_loop (plan_ShouldStop (plans s q)) (GetPreviousPlan s (Some q)) cur s of
              None \<Rightarrow> None
            | Some (c, s') \<Rightarrow>
                Some (s', c, plan_ShouldStop (plans s q),
                      IsMasterPlan (plans s' q) \<and> \<not> OkayToDiscard (plans s' q)))"
proof (induction us arbitrary: x rest rule: rev_induct)
  case Nil
  then have stk: "m_plan_stack s = lower @ q # x # rest" by simp
  have "x \<notin> set (m_completed_plan_stack s)" using c stk by auto
  from GetPreviousPlan_split[OF stk d this] have p: "GetPreviousPlan s (Some x) = Some q" .
  show ?case
    by (subst ShouldStop_scan.simps) (simp add: p q)
next
  case (snoc u us)
  then have stk: "m_plan_stack s = (lower @ q # us) @ u # x # rest" by simp
  have "x \<notin> set (m_completed_plan_stack s)" using c stk by auto
  from GetPreviousPlan_split[OF stk d this] have p: "GetPreviousPlan s (Some x) = Some u" .
  from snoc.prems have nu: "\<not> PlanExplainsStop (plans s u)" by simp
  have "ShouldStop_scan u sh0 cur s =
           (case ShouldStop_pop_loop (plan_ShouldStop (plans s q)) (GetPreviousPlan s (Some q)) cur s of
              None \<Rightarrow> None
            | Some (c, s') \<Rightarrow>
                Some (s', c, plan_ShouldStop (plans s q),
                      IsMasterPlan (plans s' q) \<and> \<not> OkayToDiscard (plans s' q)))"
    using snoc.prems by (intro snoc.IH[of u "x # rest"]) simp_all
  then show ?case
    by (subst ShouldStop_scan.simps) (simp add: p nu)
qed

text \<open>
  Claim C2, amended. The top plan does not explain the stop, nor does its tracer, and
  the first plan below it that does is \<open>q\<close>, which is not the base plan and is done.
  Then every plan from the top down to \<open>q\<close> is popped to the completed history, top
  first, with \<^verbatim>\<open>WillStop\<close> before each pop when the verdict of \<open>q\<close> is to stop;
  the plan that was below \<open>q\<close> is the current plan; and
  \<^verbatim>\<open>done_processing_current_plan\<close> is true exactly when \<open>q\<close> is a master plan
  that is not okay to discard.
\<close>

theorem C2_explaining_plan_done:
  assumes stk: "m_plan_stack s = lower @ q # upper" and lo: "lower \<noteq> []" and up: "upper \<noteq> []"
    and d: "distinct (m_plan_stack s)"
    and c: "set (m_plan_stack s) \<inter> set (m_completed_plan_stack s) = {}"
    and nex: "\<forall>p \<in> set upper. \<not> PlanExplainsStop (plans s p)"
    and ntr: "\<not> TracerExplainsStop (plans s (last upper))"
    and q: "PlanExplainsStop (plans s q)" "MischiefManaged (plans s q)"
  shows "ShouldStop_explain (last upper) s =
           Some (s\<lparr>m_completed_plan_stack := m_completed_plan_stack s @ rev (q # upper),
                   calls := calls s @ pop_calls (plan_ShouldStop (plans s q)) (rev (q # upper)),
                   m_plan_stack := lower\<rparr>,
                 last lower, plan_ShouldStop (plans s q),
                 IsMasterPlan (plans s q) \<and> \<not> OkayToDiscard (plans s q))"
proof -
  from up obtain us x where upper: "upper = us @ [x]" by (cases upper rule: rev_cases) auto
  from lo obtain ls l where lower: "lower = ls @ [l]" by (cases lower rule: rev_cases) auto
  have stk1: "m_plan_stack s = lower @ q # us @ x # []" by (simp add: stk upper)
  have nus: "\<forall>p \<in> set us. \<not> PlanExplainsStop (plans s p)" using nex upper by simp
  have stk2: "m_plan_stack s = ls @ l # q # upper" by (simp add: stk lower)
  have "q \<notin> set (m_completed_plan_stack s)" using c stk by auto
  from GetPreviousPlan_split[OF stk2 d this] have pq: "GetPreviousPlan s (Some q) = Some (last lower)"
    by (simp add: lower)
  have dd: "distinct (lower @ (q # upper))" using d stk by simp
  have pop: "ShouldStop_pop_loop (plan_ShouldStop (plans s q)) (Some (last lower)) (last (q # upper)) s =
     Some (last lower,
           s\<lparr>m_completed_plan_stack := m_completed_plan_stack s @ rev (q # upper),
             calls := calls s @ pop_calls (plan_ShouldStop (plans s q)) (rev (q # upper)),
             m_plan_stack := lower\<rparr>)"
    using stk lo dd by (intro ShouldStop_pop_loop_pops) simp_all
  have lastx: "last (q # upper) = x" "last upper = x" by (simp_all add: upper)
  note pop = pop[unfolded lastx(1)]
  have scan: "ShouldStop_scan x True x s =
           (case ShouldStop_pop_loop (plan_ShouldStop (plans s q)) (GetPreviousPlan s (Some q)) x s of
              None \<Rightarrow> None
            | Some (c, s') \<Rightarrow>
                Some (s', c, plan_ShouldStop (plans s q),
                      IsMasterPlan (plans s' q) \<and> \<not> OkayToDiscard (plans s' q)))"
    by (rule ShouldStop_scan_finds[OF d c q stk1 nus])
  have nx: "\<not> PlanExplainsStop (plans s x)" using nex upper by simp
  show ?thesis
    using nx ntr
    by (simp add: ShouldStop_explain_def lastx(2) scan pq pop)
qed


text \<open>C2 for a plan that is okay to discard: the verdict is left to the plan now on top.\<close>

theorem C2_explaining_plan_done_witness:
  "m_plan_stack step_interrupted = [0] @ 1 # [2, 3] \<and>
   distinct (m_plan_stack step_interrupted) \<and>
   set (m_plan_stack step_interrupted) \<inter> set (m_completed_plan_stack step_interrupted) = {} \<and>
   \<not> PlanExplainsStop (plans step_interrupted 2) \<and>
   \<not> PlanExplainsStop (plans step_interrupted 3) \<and>
   \<not> TracerExplainsStop (plans step_interrupted 3) \<and>
   PlanExplainsStop (plans step_interrupted 1) \<and> MischiefManaged (plans step_interrupted 1) \<and>
   ShouldStop_explain 3 step_interrupted =
     Some (step_interrupted\<lparr>m_completed_plan_stack := [3, 2, 1],
             calls := [Call_WillPop 3, Call_WillPop 2, Call_WillPop 1],
             m_plan_stack := [0]\<rparr>, 0, False, False)"
proof -
  let ?t = step_interrupted
  have a: "m_plan_stack ?t = [0] @ 1 # [2, 3]" "[0] \<noteq> ([]::plan_ptr list)"
    "[2, 3] \<noteq> ([]::plan_ptr list)" "distinct (m_plan_stack ?t)"
    "set (m_plan_stack ?t) \<inter> set (m_completed_plan_stack ?t) = {}"
    "\<forall>p \<in> set [2, 3]. \<not> PlanExplainsStop (plans ?t p)"
    "\<not> TracerExplainsStop (plans ?t (last [2, 3]))"
    "PlanExplainsStop (plans ?t 1)" "MischiefManaged (plans ?t 1)"
    by (simp_all add: step_interrupted_def thread_of_def plain_plan_def)
  have b: "\<not> plan_ShouldStop (plans ?t 1)" "\<not> IsMasterPlan (plans ?t 1)"
    "m_completed_plan_stack ?t = []" "calls ?t = []"
    by (simp_all add: step_interrupted_def thread_of_def plain_plan_def)
  from C2_explaining_plan_done[OF a] a b show ?thesis
    by (simp add: pop_calls_def)
qed

text \<open>
  The claim as stated sets \<^verbatim>\<open>done_processing_current_plan\<close> to false for a master
  plan that is not okay to discard. The code sets it to true.
\<close>

theorem C2_master_plan_resolved_counterexample:
  "PlanExplainsStop (plans master_interrupted 1) \<and> MischiefManaged (plans master_interrupted 1) \<and>
   IsMasterPlan (plans master_interrupted 1) \<and> \<not> OkayToDiscard (plans master_interrupted 1) \<and>
   ShouldStop_explain 2 master_interrupted =
     Some (master_interrupted\<lparr>m_completed_plan_stack := [2, 1],
             calls := [Call_WillStop 2, Call_WillPop 2, Call_WillStop 1, Call_WillPop 1],
             m_plan_stack := [0]\<rparr>, 0, True, True)"
  by (simp add: ShouldStop_explain_def ShouldStop_scan.simps ShouldStop_pop_loop.simps
      GetPreviousPlan_def GetCurrentPlan_def PopPlan_def WillStop_if_def log_call_def
      master_interrupted_def thread_of_def done_master_def base_plan_def plain_plan_def
      numeral_2_eq_2)

end
